theory Spec2Isabelle
  imports Main "HOL-Library.Sublist" "HOL-Library.Char_ord" "HOL-Library.List_Lexorder"
    "HOL-Library.AList"
begin

section \<open>The Go standard library functions the program calls\<close>

text \<open>
  Go strings are byte sequences; they are modelled as \<^typ>\<open>string\<close> (a list of 8-bit
  characters).  Each library function is written out for the arguments the program
  passes to it.
\<close>

subsection \<open>Package strings\<close>

definition strings_HasPrefix :: "string \<Rightarrow> string \<Rightarrow> bool" where
  "strings_HasPrefix s p = (take (length p) s = p)"

definition strings_HasSuffix :: "string \<Rightarrow> string \<Rightarrow> bool" where
  "strings_HasSuffix s p = (length p \<le> length s \<and> drop (length s - length p) s = p)"

fun strings_Contains :: "string \<Rightarrow> string \<Rightarrow> bool" where
  "strings_Contains [] sub = (sub = [])"
| "strings_Contains (c # cs) sub =
     (strings_HasPrefix (c # cs) sub \<or> strings_Contains cs sub)"

text \<open>
  \<open>strings.Split(s, sep)\<close> for a one-byte separator (the program splits on \<open>"."\<close> and
  on a tab): \<open>n\<close> separators give \<open>n + 1\<close> pieces, empty pieces included.
\<close>

fun strings_Split :: "string \<Rightarrow> char \<Rightarrow> string list" where
  "strings_Split [] sep = [[]]"
| "strings_Split (c # cs) sep =
     (if c = sep then [] # strings_Split cs sep
      else (case strings_Split cs sep of
              [] \<Rightarrow> [[c]]
            | p # ps \<Rightarrow> (c # p) # ps))"

text \<open>
  \<open>strings.ReplaceAll(s, old, new)\<close>: the non-overlapping occurrences of \<open>old\<close> are
  replaced from left to right.  The program always passes the non-empty literal
  \<open>"<version>"\<close> as \<open>old\<close>; for an empty \<open>old\<close> Go inserts \<open>new\<close> before every
  character and at the end.
\<close>

function strings_ReplaceAll :: "string \<Rightarrow> string \<Rightarrow> string \<Rightarrow> string" where
  "strings_ReplaceAll s old new =
     (if old = [] then new @ concat (map (\<lambda>c. c # new) s)
      else if s = [] then []
      else if strings_HasPrefix s old
        then new @ strings_ReplaceAll (drop (length old) s) old new
      else hd s # strings_ReplaceAll (tl s) old new)"
  by pat_completeness auto
termination
  by (relation "measure (\<lambda>(s, old, new). length s)") auto

subsection \<open>Package strconv\<close>

definition is_digit :: "char \<Rightarrow> bool" where
  "is_digit c = (48 \<le> (of_char c :: int) \<and> (of_char c :: int) \<le> 57)"

definition digit_val :: "char \<Rightarrow> int" where
  "digit_val c = of_char c - 48"

definition decimal :: "string \<Rightarrow> int" where
  "decimal ds = foldl (\<lambda>n c. n * 10 + digit_val c) 0 ds"

datatype NumError = ErrSyntax | ErrRange

text \<open>
  The loop of \<open>strconv.ParseUint\<close> in base 10 for 64 bits, \<open>n\<close> the number read so
  far.  It stops with a syntax error at the first byte that is no digit and with a
  range error at the first digit that takes the number past \<open>2^64 - 1\<close>, whichever
  comes first.
\<close>

fun parse_digits :: "int \<Rightarrow> string \<Rightarrow> NumError + int" where
  "parse_digits n [] = Inr n"
| "parse_digits n (c # cs) =
     (if \<not> is_digit c then Inl ErrSyntax
      else if 1844674407370955162 \<le> n then Inl ErrRange
      else if 18446744073709551615 < n * 10 + digit_val c then Inl ErrRange
      else parse_digits (n * 10 + digit_val c) cs)"

definition strconv_ParseUint :: "string \<Rightarrow> NumError + int" where
  "strconv_ParseUint s = (if s = [] then Inl ErrSyntax else parse_digits 0 s)"

text \<open>
  \<open>strconv.ParseInt\<close> in base 10 for the type \<open>int\<close> of a 64-bit platform (the program
  manages x86-64 images): an optional \<open>+\<close> or \<open>-\<close>, then an unsigned number, and the
  value has to lie between \<open>-2^63\<close> and \<open>2^63 - 1\<close>.
\<close>

definition strconv_ParseInt :: "string \<Rightarrow> NumError + int" where
  "strconv_ParseInt s =
     (if s = [] then Inl ErrSyntax
      else let neg = (hd s = CHR ''-'');
               ds = (if hd s = CHR ''+'' \<or> hd s = CHR ''-'' then tl s else s)
           in case strconv_ParseUint ds of
                Inl ErrSyntax \<Rightarrow> Inl ErrSyntax
              | Inl ErrRange \<Rightarrow> Inl ErrRange
              | Inr un \<Rightarrow>
                  if \<not> neg \<and> 2 ^ 63 \<le> un then Inl ErrRange
                  else if neg \<and> 2 ^ 63 < un then Inl ErrRange
                  else Inr (if neg then - un else un))"

text \<open>
  \<open>strconv.Atoi\<close>: a string of 1 to 18 bytes is read on the spot, since it cannot
  leave the range; every other string goes to \<open>ParseInt\<close>.
\<close>

definition strconv_Atoi :: "string \<Rightarrow> NumError + int" where
  "strconv_Atoi s =
     (if 0 < int (length s) \<and> int (length s) < 19
      then (let ds = (if hd s = CHR ''-'' \<or> hd s = CHR ''+'' then tl s else s)
            in if ds = [] \<or> \<not> list_all is_digit ds then Inl ErrSyntax
               else Inr (if hd s = CHR ''-'' then - decimal ds else decimal ds))
      else strconv_ParseInt s)"

section \<open>Package version (internal/version/version.go)\<close>

text \<open>
  \<open>SemverFromName\<close> matches the file name against the fixed regular expression
  \<^verbatim>\<open>^Cursor-([0-9]+(\.[0-9]+)*)-x86_64\.AppImage$\<close> and returns the first group.  The
  expression is anchored at both ends and its prefix and suffix are literal, so a
  match exists exactly when the name is the prefix, a group text and the suffix, and
  the group is the text in between.  \<open>version_body seen\<close> recognises
  \<^verbatim>\<open>[0-9]+(\.[0-9]+)*\<close>; \<open>seen\<close> says that the character just read was a digit.
\<close>

fun version_body :: "bool \<Rightarrow> string \<Rightarrow> bool" where
  "version_body seen [] = seen"
| "version_body seen (c # cs) =
     (if is_digit c then version_body True cs
      else if c = CHR ''.'' \<and> seen then version_body False cs
      else False)"

definition SemverFromName :: "string \<Rightarrow> string" where
  "SemverFromName filename =
     (if filename = [] then []
      else let pre = ''Cursor-''; suf = ''-x86_64.AppImage'' in
        if length pre + length suf \<le> length filename
           \<and> strings_HasPrefix filename pre \<and> strings_HasSuffix filename suf
        then (let group = take (length filename - length pre - length suf)
                            (drop (length pre) filename)
              in if version_body False group then group else [])
        else [])"

datatype SemverError =
    EmptyVersion
  | WrongPartCount nat
  | InvalidMajor NumError
  | InvalidMinor NumError
  | InvalidPatch NumError

definition ParseSemver :: "string \<Rightarrow> SemverError + (int \<times> int \<times> int)" where
  "ParseSemver version =
     (if version = [] then Inl EmptyVersion
      else let parts = strings_Split version CHR ''.'' in
        if length parts \<noteq> 3 then Inl (WrongPartCount (length parts))
        else (case strconv_Atoi (parts ! 0) of
                Inl e \<Rightarrow> Inl (InvalidMajor e)
              | Inr major \<Rightarrow>
            (case strconv_Atoi (parts ! 1) of
                Inl e \<Rightarrow> Inl (InvalidMinor e)
              | Inr minor \<Rightarrow>
            (case strconv_Atoi (parts ! 2) of
                Inl e \<Rightarrow> Inl (InvalidPatch e)
              | Inr patch \<Rightarrow> Inr (major, minor, patch)))))"

definition LessThan :: "string \<Rightarrow> string \<Rightarrow> bool" where
  "LessThan v1 v2 =
     (if v1 = [] \<or> v2 = [] then False
      else (case ParseSemver v1 of
              Inl e1 \<Rightarrow> False
            | Inr (major1, minor1, patch1) \<Rightarrow>
          (case ParseSemver v2 of
              Inl e2 \<Rightarrow> False
            | Inr (major2, minor2, patch2) \<Rightarrow>
                if major1 < major2 then True
                else if major1 > major2 then False
                else if minor1 < minor2 then True
                else if minor1 > minor2 then False
                else patch1 < patch2)))"

section \<open>Package config (internal/config/config.go)\<close>

record Config =
  DownloadDir :: string
  FileNamePattern :: string
  LatestSymlink :: string
  LedgerPath :: string

definition NewConfig :: Config where
  "NewConfig = \<lparr> DownloadDir = ''~/Downloads/Cursor'',
                 FileNamePattern = ''Cursor-<version>-x86_64.AppImage'',
                 LatestSymlink = ''~/Downloads/Cursor/Cursor.AppImage'',
                 LedgerPath = ''~/.config/updateCursor/cursor-versions.log'' \<rparr>"

definition Config_GenerateFileName :: "Config \<Rightarrow> string \<Rightarrow> string" where
  "Config_GenerateFileName c version =
     strings_ReplaceAll (FileNamePattern c) ''<version>'' version"


section \<open>Paths and the file system\<close>

subsection \<open>Package path/filepath (Unix)\<close>

definition join_slash :: "string list \<Rightarrow> string" where
  "join_slash cs = (case cs of [] \<Rightarrow> [] | c # rest \<Rightarrow> c @ concat (map (\<lambda>d. CHR ''/'' # d) rest))"

definition path_elements :: "string \<Rightarrow> string list" where
  "path_elements p = filter (\<lambda>c. c \<noteq> [] \<and> c \<noteq> ''.'') (strings_Split p CHR ''/'')"

text \<open>
  \<open>filepath.Clean\<close>: empty and \<open>.\<close> elements go, an inner \<open>..\<close> removes the element
  before it, a \<open>..\<close> at the start of a rooted path goes.  \<open>st\<close> is the stack of the
  elements kept so far, the last one first.
\<close>

fun clean_elements :: "bool \<Rightarrow> string list \<Rightarrow> string list \<Rightarrow> string list" where
  "clean_elements rooted st [] = rev st"
| "clean_elements rooted st (c # cs) =
     (if c = ''..'' then
        (case st of
           [] \<Rightarrow> if rooted then clean_elements rooted [] cs
                 else clean_elements rooted [''..''] cs
         | t # ts \<Rightarrow> if t = ''..'' then clean_elements rooted (''..'' # st) cs
                     else clean_elements rooted ts cs)
      else clean_elements rooted (c # st) cs)"

definition filepath_Clean :: "string \<Rightarrow> string" where
  "filepath_Clean p =
     (let rooted = strings_HasPrefix p ''/'';
          body = join_slash (clean_elements rooted [] (path_elements p))
      in if rooted then CHR ''/'' # body else if body = [] then ''.'' else body)"

definition filepath_Join :: "string \<Rightarrow> string \<Rightarrow> string" where
  "filepath_Join a b =
     (if a \<noteq> [] then filepath_Clean (a @ ''/'' @ b)
      else if b \<noteq> [] then filepath_Clean b
      else [])"

definition filepath_Dir :: "string \<Rightarrow> string" where
  "filepath_Dir p = filepath_Clean (rev (dropWhile (\<lambda>c. c \<noteq> CHR ''/'') (rev p)))"

definition filepath_Base :: "string \<Rightarrow> string" where
  "filepath_Base p =
     (if p = [] then ''.''
      else let q = dropWhile (\<lambda>c. c = CHR ''/'') (rev p);
               b = rev (takeWhile (\<lambda>c. c \<noteq> CHR ''/'') q)
           in if b = [] then ''/'' else b)"

text \<open>
  \<open>filepath.Rel(basepath, targpath)\<close>, on the elements of the two cleaned paths: the
  common leading elements go, every element left of the base becomes \<open>..\<close>.  It fails
  when one path is rooted and the other is not, and when the first element of the
  base that differs from the target's is \<open>..\<close>.
\<close>

fun strip_common :: "string list \<Rightarrow> string list \<Rightarrow> bool \<times> string list \<times> string list" where
  "strip_common (b # bs) (t # ts) =
     (if b = t then strip_common bs ts else (True, b # bs, t # ts))"
| "strip_common bs ts = (False, bs, ts)"

datatype Errno = ENOENT | EEXIST | ENOTDIR | EISDIR | EINVAL | ELOOP | ENOTEMPTY | EIO

definition filepath_Rel :: "string \<Rightarrow> string \<Rightarrow> Errno + string" where
  "filepath_Rel basepath targpath =
     (let base = filepath_Clean basepath; targ = filepath_Clean targpath in
      if targ = base then Inr ''.''
      else if strings_HasPrefix base ''/'' \<noteq> strings_HasPrefix targ ''/'' then Inl EINVAL
      else (case strip_common (path_elements base)
                   (filter (\<lambda>c. c \<noteq> []) (strings_Split targ CHR ''/'')) of
              (differ, bs, ts) \<Rightarrow>
                if differ \<and> hd bs = ''..'' then Inl EINVAL
                else if bs \<noteq> [] then Inr (join_slash (map (\<lambda>b. ''..'') bs @ ts))
                else Inr (join_slash ts)))"

subsection \<open>The file system\<close>

text \<open>
  The file system is a table from cleaned paths to nodes.  A regular file holds its
  content, a symbolic link its target.  The root and the working directory always
  exist.  Symbolic links are followed at the end of a path only: the directories on
  the way to a file are taken to be directories, not links to one.  A path that has
  no entry in the table is absent (\<open>ENOENT\<close>), also below a regular file, where the
  kernel answers \<open>ENOTDIR\<close>; the empty path is read as the working directory.
  Permissions, devices and a full disk are not modelled: an operation fails only for
  the reasons written out below.
\<close>

datatype Node = Regular string | Directory | Symlink string

type_synonym FileSystem = "(string \<times> Node) list"

definition fs_lookup :: "FileSystem \<Rightarrow> string \<Rightarrow> Node option" where
  "fs_lookup fs p =
     (let q = filepath_Clean p in
      if q = ''/'' \<or> q = ''.'' then Some Directory else map_of fs q)"

definition link_dest :: "string \<Rightarrow> string \<Rightarrow> string" where
  "link_dest link target =
     (if strings_HasPrefix target ''/'' then filepath_Clean target
      else filepath_Join (filepath_Dir (filepath_Clean link)) target)"

text \<open>
  \<open>follow n fs p\<close> resolves the symbolic links at the end of \<open>p\<close>, at most \<open>n\<close> of them
  (the kernel gives up with \<open>ELOOP\<close> after 40), and returns the path reached with the
  node there, if any.
\<close>

fun follow :: "nat \<Rightarrow> FileSystem \<Rightarrow> string \<Rightarrow> Errno + (string \<times> Node option)" where
  "follow 0 fs p = Inl ELOOP"
| "follow (Suc n) fs p =
     (case fs_lookup fs p of
        Some (Symlink t) \<Rightarrow> if t = [] then Inl ENOENT else follow n fs (link_dest p t)
      | r \<Rightarrow> Inr (filepath_Clean p, r))"

definition os_Stat :: "FileSystem \<Rightarrow> string \<Rightarrow> Errno + Node" where
  "os_Stat fs p =
     (case follow 40 fs p of
        Inl e \<Rightarrow> Inl e
      | Inr (q, None) \<Rightarrow> Inl ENOENT
      | Inr (q, Some n) \<Rightarrow> Inr n)"

definition os_Lstat :: "FileSystem \<Rightarrow> string \<Rightarrow> Errno + Node" where
  "os_Lstat fs p = (case fs_lookup fs p of None \<Rightarrow> Inl ENOENT | Some n \<Rightarrow> Inr n)"

definition os_Readlink :: "FileSystem \<Rightarrow> string \<Rightarrow> Errno + string" where
  "os_Readlink fs p =
     (case fs_lookup fs p of
        None \<Rightarrow> Inl ENOENT
      | Some (Symlink t) \<Rightarrow> Inr t
      | Some n \<Rightarrow> Inl EINVAL)"

text \<open>\<open>FileInfo.Size()\<close>: the length of a regular file; a directory reports one block.\<close>

definition FileInfo_Size :: "Node \<Rightarrow> int" where
  "FileInfo_Size n =
     (case n of
        Regular c \<Rightarrow> int (length c)
      | Directory \<Rightarrow> 4096
      | Symlink t \<Rightarrow> int (length t))"

definition IsDir :: "Node \<Rightarrow> bool" where
  "IsDir n = (n = Directory)"

definition dir_entries :: "FileSystem \<Rightarrow> string \<Rightarrow> (string \<times> Node) list" where
  "dir_entries fs d =
     map (\<lambda>(p, n). (filepath_Base p, n))
       (filter (\<lambda>(p, n). p \<noteq> d \<and> filepath_Clean p = p \<and> filepath_Dir p = d) (AList.clearjunk fs))"

text \<open>\<open>os.ReadDir\<close> returns the entries of the directory sorted by file name.\<close>

definition os_ReadDir :: "FileSystem \<Rightarrow> string \<Rightarrow> Errno + (string \<times> Node) list" where
  "os_ReadDir fs d =
     (case follow 40 fs d of
        Inl e \<Rightarrow> Inl e
      | Inr (q, None) \<Rightarrow> Inl ENOENT
      | Inr (q, Some Directory) \<Rightarrow> Inr (sort_key fst (dir_entries fs q))
      | Inr (q, Some n) \<Rightarrow> Inl ENOTDIR)"

definition is_directory :: "FileSystem \<Rightarrow> string \<Rightarrow> bool" where
  "is_directory fs d = (os_Stat fs d = Inr Directory)"

definition os_Mkdir :: "FileSystem \<Rightarrow> string \<Rightarrow> Errno + FileSystem" where
  "os_Mkdir fs p =
     (if fs_lookup fs p \<noteq> None then Inl EEXIST
      else if \<not> is_directory fs (filepath_Dir (filepath_Clean p)) then Inl ENOENT
      else Inr (AList.update (filepath_Clean p) Directory fs))"

text \<open>
  \<open>os.MkdirAll\<close> as the library writes it: nothing to do when the path is a directory,
  \<open>ENOTDIR\<close> when it is something else; otherwise the parent (the path without its
  last element) is made first, then the directory itself.  The file system is
  returned in both cases: a failed call keeps the directories it made.
\<close>

definition mkdir_parent :: "string \<Rightarrow> string" where
  "mkdir_parent path =
     rev (dropWhile (\<lambda>c. c \<noteq> CHR ''/'') (dropWhile (\<lambda>c. c = CHR ''/'') (rev path)))"

lemma mkdir_parent_shorter:
  assumes "mkdir_parent path \<noteq> []"
  shows "length (mkdir_parent path) < length path"
proof -
  from assms have "path \<noteq> []" by (auto simp: mkdir_parent_def)
  then obtain c cs where r: "rev path = c # cs" by (cases "rev path") auto
  have "length (dropWhile (\<lambda>c. c \<noteq> CHR ''/'') (dropWhile (\<lambda>c. c = CHR ''/'') (c # cs)))
          \<le> length cs"
  proof (cases "c = CHR ''/''")
    case True
    have "length (dropWhile (\<lambda>c. c \<noteq> CHR ''/'') (dropWhile (\<lambda>c. c = CHR ''/'') cs))
            \<le> length cs"
      by (meson length_dropWhile_le order_trans)
    with True show ?thesis by simp
  next
    case False
    then show ?thesis by (simp add: length_dropWhile_le)
  qed
  with r have "length (mkdir_parent path) \<le> length cs"
    by (simp add: mkdir_parent_def)
  moreover from r have "length path = Suc (length cs)"
    by (metis length_Cons length_rev)
  ultimately show ?thesis by simp
qed

function os_MkdirAll :: "FileSystem \<Rightarrow> string \<Rightarrow> Errno option \<times> FileSystem" where
  "os_MkdirAll fs path =
     (case os_Stat fs path of
        Inr n \<Rightarrow> if IsDir n then (None, fs) else (Some ENOTDIR, fs)
      | Inl e0 \<Rightarrow>
          (case (if mkdir_parent path \<noteq> [] then os_MkdirAll fs (mkdir_parent path)
                 else (None, fs)) of
             (Some e, fs1) \<Rightarrow> (Some e, fs1)
           | (None, fs1) \<Rightarrow>
               (case os_Mkdir fs1 path of
                  Inr fs2 \<Rightarrow> (None, fs2)
                | Inl e \<Rightarrow> (if os_Lstat fs1 path = Inr Directory then (None, fs1)
                            else (Some e, fs1)))))"
  by pat_completeness auto
termination
  by (relation "measure (\<lambda>(fs, path). length path)") (auto simp: mkdir_parent_shorter)

declare os_MkdirAll.simps [simp del]

text \<open>
  Opening a file follows the symbolic links at the end of the path.  With \<open>O_CREATE\<close>
  a missing file is made, in a directory that exists; a directory cannot be opened
  for writing.  The path reached is returned, as the handle to write to.
\<close>

definition os_OpenFile_append :: "FileSystem \<Rightarrow> string \<Rightarrow> Errno + (string \<times> FileSystem)" where
  "os_OpenFile_append fs p =
     (case follow 40 fs p of
        Inl e \<Rightarrow> Inl e
      | Inr (q, Some (Regular c)) \<Rightarrow> Inr (q, fs)
      | Inr (q, Some n) \<Rightarrow> Inl EISDIR
      | Inr (q, None) \<Rightarrow>
          if is_directory fs (filepath_Dir q) then Inr (q, AList.update q (Regular []) fs)
          else Inl ENOENT)"

definition os_Create :: "FileSystem \<Rightarrow> string \<Rightarrow> Errno + (string \<times> FileSystem)" where
  "os_Create fs p =
     (case follow 40 fs p of
        Inl e \<Rightarrow> Inl e
      | Inr (q, Some (Regular c)) \<Rightarrow> Inr (q, AList.update q (Regular []) fs)
      | Inr (q, Some n) \<Rightarrow> Inl EISDIR
      | Inr (q, None) \<Rightarrow>
          if is_directory fs (filepath_Dir q) then Inr (q, AList.update q (Regular []) fs)
          else Inl ENOENT)"

definition file_Write :: "FileSystem \<Rightarrow> string \<Rightarrow> string \<Rightarrow> FileSystem" where
  "file_Write fs q bytes =
     (case map_of fs q of
        Some (Regular c) \<Rightarrow> AList.update q (Regular (c @ bytes)) fs
      | r \<Rightarrow> fs)"

definition os_WriteFile :: "FileSystem \<Rightarrow> string \<Rightarrow> string \<Rightarrow> Errno option \<times> FileSystem" where
  "os_WriteFile fs p bytes =
     (case os_Create fs p of
        Inl e \<Rightarrow> (Some e, fs)
      | Inr (q, fs1) \<Rightarrow> (None, file_Write fs1 q bytes))"

definition os_Open :: "FileSystem \<Rightarrow> string \<Rightarrow> Errno + Node" where
  "os_Open fs p = os_Stat fs p"

definition os_Chmod :: "FileSystem \<Rightarrow> string \<Rightarrow> Errno option" where
  "os_Chmod fs p = (case os_Stat fs p of Inl e \<Rightarrow> Some e | Inr n \<Rightarrow> None)"

definition os_Remove :: "FileSystem \<Rightarrow> string \<Rightarrow> Errno option \<times> FileSystem" where
  "os_Remove fs p =
     (let q = filepath_Clean p in
      case map_of fs q of
        None \<Rightarrow> (Some (if fs_lookup fs p = None then ENOENT else EINVAL), fs)
      | Some n \<Rightarrow>
          if n = Directory \<and> dir_entries fs q \<noteq> [] then (Some ENOTEMPTY, fs)
          else (None, AList.delete q fs))"

definition os_Symlink :: "FileSystem \<Rightarrow> string \<Rightarrow> string \<Rightarrow> Errno option \<times> FileSystem" where
  "os_Symlink fs target p =
     (if fs_lookup fs p \<noteq> None then (Some EEXIST, fs)
      else if target = [] \<or> \<not> is_directory fs (filepath_Dir (filepath_Clean p))
        then (Some ENOENT, fs)
      else (None, AList.update (filepath_Clean p) (Symlink target) fs))"


subsection \<open>White space and lines\<close>

text \<open>
  \<open>strings.TrimSpace\<close> removes the leading and trailing white space of Unicode.  In
  UTF-8 these are six single bytes (tab, line feed, vertical tab, form feed, carriage
  return, space), U+0085 and U+00A0 (two bytes) and U+1680, U+2000 to U+200A, U+2028,
  U+2029, U+202F, U+205F and U+3000 (three bytes).
\<close>

definition is_space1 :: "char \<Rightarrow> bool" where
  "is_space1 a = (a \<in> set [CHR 0x09, CHR 0x0A, CHR 0x0B, CHR 0x0C, CHR 0x0D, CHR 0x20])"

definition is_space2 :: "char \<Rightarrow> char \<Rightarrow> bool" where
  "is_space2 a b = (a = CHR 0xC2 \<and> (b = CHR 0x85 \<or> b = CHR 0xA0))"

definition is_space3 :: "char \<Rightarrow> char \<Rightarrow> char \<Rightarrow> bool" where
  "is_space3 a b c =
     ((a = CHR 0xE1 \<and> b = CHR 0x9A \<and> c = CHR 0x80)
      \<or> (a = CHR 0xE2 \<and> b = CHR 0x80 \<and>
           ((0x80 \<le> (of_char c :: int) \<and> (of_char c :: int) \<le> 0x8A)
            \<or> c = CHR 0xA8 \<or> c = CHR 0xA9 \<or> c = CHR 0xAF))
      \<or> (a = CHR 0xE2 \<and> b = CHR 0x81 \<and> c = CHR 0x9F)
      \<or> (a = CHR 0xE3 \<and> b = CHR 0x80 \<and> c = CHR 0x80))"

fun trim_left :: "string \<Rightarrow> string" where
  "trim_left (a # b # c # rest) =
     (if is_space1 a then trim_left (b # c # rest)
      else if is_space2 a b then trim_left (c # rest)
      else if is_space3 a b c then trim_left rest
      else a # b # c # rest)"
| "trim_left [a, b] =
     (if is_space1 a then trim_left [b]
      else if is_space2 a b then []
      else [a, b])"
| "trim_left [a] = (if is_space1 a then [] else [a])"
| "trim_left [] = []"

text \<open>The same from the end, on the reversed string: the bytes of a character come last first.\<close>

fun trim_right_rev :: "string \<Rightarrow> string" where
  "trim_right_rev (c # b # a # rest) =
     (if is_space1 c then trim_right_rev (b # a # rest)
      else if is_space2 b c then trim_right_rev (a # rest)
      else if is_space3 a b c then trim_right_rev rest
      else c # b # a # rest)"
| "trim_right_rev [c, b] =
     (if is_space1 c then trim_right_rev [b]
      else if is_space2 b c then []
      else [c, b])"
| "trim_right_rev [c] = (if is_space1 c then [] else [c])"
| "trim_right_rev [] = []"

definition strings_TrimSpace :: "string \<Rightarrow> string" where
  "strings_TrimSpace s = rev (trim_right_rev (rev (trim_left s)))"

text \<open>
  \<open>bufio.Scanner\<close> with its default line splitter: the content is cut at line feeds,
  a last line without line feed counts when it is not empty, and one carriage return
  at the end of a line is dropped.  The scanner's buffer holds 65536 bytes: at a
  line of that many bytes or more the scan stops with \<open>ErrTooLong\<close>.
  \<open>scanner_tokens\<close> returns the lines delivered and whether the scan stopped so.
\<close>

definition MaxScanTokenSize :: int where
  "MaxScanTokenSize = 65536"

definition raw_lines :: "string \<Rightarrow> string list" where
  "raw_lines content =
     (let ps = strings_Split content CHR 0x0A in if last ps = [] then butlast ps else ps)"

definition dropCR :: "string \<Rightarrow> string" where
  "dropCR l = (if l \<noteq> [] \<and> last l = CHR 0x0D then butlast l else l)"

fun scanner_tokens :: "string list \<Rightarrow> string list \<times> bool" where
  "scanner_tokens [] = ([], False)"
| "scanner_tokens (l # ls) =
     (if MaxScanTokenSize \<le> int (length l) then ([], True)
      else (case scanner_tokens ls of (toks, too_long) \<Rightarrow> (dropCR l # toks, too_long)))"

section \<open>What the program runs in\<close>

text \<open>
  The environment holds what the program reads and cannot change: the library's
  RFC 3339 formatter and parser for instants (\<open>t.UTC().Format(time.RFC3339)\<close> and
  \<open>time.Parse(time.RFC3339, s)\<close>), the clock, the SHA-256 digest in hexadecimal, the
  answers of the network and the variable \<open>UPDATECURSOR_TEST_MODE\<close>.  An instant is
  an integer.  \<open>http_Head url\<close> is the URL a HEAD request ends at after all its
  redirects.
\<close>

record Response =
  StatusCode :: nat
  Location :: string
  Body :: string

record Env =
  time_Format :: "int \<Rightarrow> string"
  time_Parse :: "string \<Rightarrow> int option"
  time_Now :: int
  sha256_hex :: "string \<Rightarrow> string"
  http_Head :: "string \<Rightarrow> Errno + string"
  http_Get :: "string \<Rightarrow> Errno + Response"
  test_mode :: bool

section \<open>Package ledger (internal/ledger/ledger.go)\<close>

record Entry =
  Timestamp :: int
  Version :: string
  InternalID :: string
  Filename :: string
  SHA256 :: string
  Action :: string

datatype ScanError = ErrTooLong | ReadErrno Errno

datatype LedgerError =
    CreateDirectoryFailed Errno
  | OpenLedgerFailed Errno
  | ReadLedgerFailed ScanError
  | NoEntriesFound

datatype EntryError = InvalidEntryFormat nat | InvalidTimestampFormat

text \<open>The line \<open>Append\<close> formats: six fields, a tab between them, a line feed at the end.\<close>

definition entry_fields :: "Env \<Rightarrow> Entry \<Rightarrow> string" where
  "entry_fields env entry =
     time_Format env (Timestamp entry) @ [CHR 0x09] @ Version entry @ [CHR 0x09]
       @ InternalID entry @ [CHR 0x09] @ Filename entry @ [CHR 0x09]
       @ SHA256 entry @ [CHR 0x09] @ Action entry"

definition entry_line :: "Env \<Rightarrow> Entry \<Rightarrow> string" where
  "entry_line env entry = entry_fields env entry @ [CHR 0x0A]"

definition Ledger_Append ::
  "Env \<Rightarrow> string \<Rightarrow> Entry \<Rightarrow> FileSystem \<Rightarrow> LedgerError option \<times> FileSystem" where
  "Ledger_Append env path entry fs =
     (case os_MkdirAll fs (filepath_Dir path) of
        (Some e, fs1) \<Rightarrow> (Some (CreateDirectoryFailed e), fs1)
      | (None, fs1) \<Rightarrow>
          (case os_OpenFile_append fs1 path of
             Inl e \<Rightarrow> (Some (OpenLedgerFailed e), fs1)
           | Inr (q, fs2) \<Rightarrow> (None, file_Write fs2 q (entry_line env entry))))"

definition parseEntry :: "Env \<Rightarrow> string \<Rightarrow> EntryError + Entry" where
  "parseEntry env line =
     (let parts = strings_Split line CHR 0x09 in
      if length parts \<noteq> 6 then Inl (InvalidEntryFormat (length parts))
      else (case time_Parse env (parts ! 0) of
              None \<Rightarrow> Inl InvalidTimestampFormat
            | Some timestamp \<Rightarrow>
                Inr \<lparr> Timestamp = timestamp, Version = parts ! 1, InternalID = parts ! 2,
                      Filename = parts ! 3, SHA256 = parts ! 4, Action = parts ! 5 \<rparr>))"

text \<open>The body of the loop of \<open>ReadAll\<close>, over the lines the scanner delivers.\<close>

fun read_loop :: "Env \<Rightarrow> string list \<Rightarrow> Entry list \<Rightarrow> Entry list" where
  "read_loop env [] entries = entries"
| "read_loop env (tok # toks) entries =
     (let line = strings_TrimSpace tok in
      if line = [] then read_loop env toks entries
      else (case parseEntry env line of
              Inl e \<Rightarrow> read_loop env toks entries
            | Inr entry \<Rightarrow> read_loop env toks (entries @ [entry])))"

definition Ledger_ReadAll :: "Env \<Rightarrow> string \<Rightarrow> FileSystem \<Rightarrow> LedgerError + Entry list" where
  "Ledger_ReadAll env path fs =
     (if os_Stat fs path = Inl ENOENT then Inr []
      else (case os_Open fs path of
              Inl e \<Rightarrow> Inl (OpenLedgerFailed e)
            | Inr (Regular content) \<Rightarrow>
                (case scanner_tokens (raw_lines content) of
                   (toks, too_long) \<Rightarrow>
                     (let entries = read_loop env toks [] in
                      if too_long then Inl (ReadLedgerFailed ErrTooLong) else Inr entries))
            | Inr n \<Rightarrow> Inl (ReadLedgerFailed (ReadErrno EISDIR))))"

definition Ledger_FindByInternalID ::
  "Env \<Rightarrow> string \<Rightarrow> string \<Rightarrow> FileSystem \<Rightarrow> LedgerError + Entry list" where
  "Ledger_FindByInternalID env path ident fs =
     (case Ledger_ReadAll env path fs of
        Inl e \<Rightarrow> Inl e
      | Inr entries \<Rightarrow> Inr (filter (\<lambda>entry. InternalID entry = ident) entries))"

fun latest_loop :: "Entry \<Rightarrow> Entry list \<Rightarrow> Entry" where
  "latest_loop latest [] = latest"
| "latest_loop latest (entry # rest) =
     latest_loop (if Timestamp latest < Timestamp entry then entry else latest) rest"

definition Ledger_GetLatestVersion :: "Env \<Rightarrow> string \<Rightarrow> FileSystem \<Rightarrow> LedgerError + Entry" where
  "Ledger_GetLatestVersion env path fs =
     (case Ledger_ReadAll env path fs of
        Inl e \<Rightarrow> Inl e
      | Inr entries \<Rightarrow>
          (case entries of
             [] \<Rightarrow> Inl NoEntriesFound
           | first # rest \<Rightarrow> Inr (latest_loop first rest)))"


section \<open>Package updater (internal/updater/updater.go)\<close>

text \<open>
  The world is what the program changes: the file system, the network requests it
  has sent, and the status lines and warnings it has printed (the progress bar is
  left out).
\<close>

datatype Request = HEAD string | GET string

datatype UpdaterError =
    CheckRedirectFailed Errno
  | NoVersionInURL string
  | StatFailed Errno
  | ReadWorkDirFailed Errno
  | GetRemoteVersionFailed UpdaterError
  | DownloadFailed Errno
  | RedirectLocationNotFound
  | RedirectDownloadFailed Errno
  | DownloadStatus nat
  | EnsureDirectoriesFailed Errno
  | CreateFileFailed Errno
  | MakeExecutableFailed Errno
  | VersionFileNotFound string
  | RemoveSymlinkFailed Errno
  | CreateSymlinkFailed Errno

datatype CliError =
    ErrorCheckingForUpdates UpdaterError
  | ErrorGettingRemoteVersion UpdaterError
  | ErrorDownloading UpdaterError
  | ErrorCalculatingSHA256 Errno
  | ErrorSwitching UpdaterError
  | InvalidVersionFormat string

datatype Message =
    AlreadyUpToDate string
  | DownloadingCursor string
  | TestModeDownload
  | ForceDownloadingCursor string
  | TestModeForceDownload
  | BlankLine
  | UpdatedTo string
  | ForceUpdatedTo string
  | SwitchedTo string
  | WarnLogUpdate LedgerError
  | WarnLogSwitch LedgerError
  | WarnRemoveExisting Errno
  | WarnVersionFile Errno

record World =
  files :: FileSystem
  requests :: "Request list"
  stdout :: "Message list"
  stderr :: "Message list"

definition send :: "Request \<Rightarrow> World \<Rightarrow> World" where
  "send r w = w\<lparr>requests := requests w @ [r]\<rparr>"

definition say :: "Message \<Rightarrow> World \<Rightarrow> World" where
  "say m w = w\<lparr>stdout := stdout w @ [m]\<rparr>"

definition warn :: "Message \<Rightarrow> World \<Rightarrow> World" where
  "warn m w = w\<lparr>stderr := stderr w @ [m]\<rparr>"

record Updater =
  downloadURL :: string
  workDir :: string
  launchLink :: string
  config :: "Config option"

definition NewUpdater :: "string \<Rightarrow> string \<Rightarrow> Config option \<Rightarrow> Updater" where
  "NewUpdater url dir cfg =
     \<lparr> downloadURL = url, workDir = dir,
       launchLink = filepath_Join dir ''Cursor.AppImage'', config = cfg \<rparr>"

definition getDownloadPath :: "Updater \<Rightarrow> string \<Rightarrow> string" where
  "getDownloadPath u filename =
     (case config u of
        Some cfg \<Rightarrow> filepath_Join (DownloadDir cfg) filename
      | None \<Rightarrow> filepath_Join (workDir u) filename)"

definition GenerateFileName :: "Updater \<Rightarrow> string \<Rightarrow> string" where
  "GenerateFileName u version =
     (case config u of
        Some cfg \<Rightarrow> Config_GenerateFileName cfg version
      | None \<Rightarrow> ''Cursor-'' @ version @ ''-x86_64.AppImage'')"

definition getLatestSymlinkPath :: "Updater \<Rightarrow> string" where
  "getLatestSymlinkPath u =
     (case config u of Some cfg \<Rightarrow> LatestSymlink cfg | None \<Rightarrow> launchLink u)"

definition GetRemoteVersion :: "Env \<Rightarrow> Updater \<Rightarrow> World \<Rightarrow> (UpdaterError + string) \<times> World" where
  "GetRemoteVersion env u w =
     (let w1 = send (HEAD (downloadURL u)) w in
      case http_Head env (downloadURL u) of
        Inl e \<Rightarrow> (Inl (CheckRedirectFailed e), w1)
      | Inr finalURL \<Rightarrow>
          (let version = SemverFromName (filepath_Base finalURL) in
           if version = [] then (Inl (NoVersionInURL finalURL), w1)
           else (Inr version, w1)))"

text \<open>
  The loop of \<open>GetLocalVersion\<close> over the directory listing; \<open>wanted\<close> is the size of
  the current reference.  It returns at the first entry that passes the name check
  and has that size.
\<close>

fun scan_workDir :: "Updater \<Rightarrow> FileSystem \<Rightarrow> int \<Rightarrow> (string \<times> Node) list \<Rightarrow> string" where
  "scan_workDir u fs wanted [] = []"
| "scan_workDir u fs wanted ((filename, node) # rest) =
     (if IsDir node then scan_workDir u fs wanted rest
      else if (case config u of
                 Some cfg \<Rightarrow>
                   \<not> strings_Contains (FileNamePattern cfg) ''<version>''
                   \<or> \<not> strings_Contains filename ''.''
               | None \<Rightarrow>
                   \<not> strings_HasPrefix filename ''Cursor-''
                   \<or> \<not> strings_HasSuffix filename ''-x86_64.AppImage'')
        then scan_workDir u fs wanted rest
      else (case os_Stat fs (filepath_Join (workDir u) filename) of
              Inr versionStat \<Rightarrow>
                if FileInfo_Size versionStat = wanted then SemverFromName filename
                else scan_workDir u fs wanted rest
            | Inl e \<Rightarrow> scan_workDir u fs wanted rest))"

definition GetLocalVersion :: "Updater \<Rightarrow> FileSystem \<Rightarrow> UpdaterError + string" where
  "GetLocalVersion u fs =
     (if os_Stat fs (launchLink u) = Inl ENOENT then Inr []
      else (case os_Readlink fs (launchLink u) of
              Inr target \<Rightarrow> Inr (SemverFromName (filepath_Base target))
            | Inl e1 \<Rightarrow>
                (case os_Stat fs (launchLink u) of
                   Inl e \<Rightarrow> Inl (StatFailed e)
                 | Inr stat \<Rightarrow>
                     (case os_ReadDir fs (workDir u) of
                        Inl e \<Rightarrow> Inl (ReadWorkDirFailed e)
                      | Inr entries \<Rightarrow>
                          Inr (scan_workDir u fs (FileInfo_Size stat) entries)))))"

definition SwitchToVersion ::
  "Updater \<Rightarrow> string \<Rightarrow> FileSystem \<Rightarrow> UpdaterError option \<times> FileSystem" where
  "SwitchToVersion u version fs =
     (let filename = GenerateFileName u version;
          filePath = getDownloadPath u filename in
      if os_Stat fs filePath = Inl ENOENT then (Some (VersionFileNotFound filename), fs)
      else let symlinkPath = getLatestSymlinkPath u in
        (case (case os_Lstat fs symlinkPath of
                 Inr n \<Rightarrow> os_Remove fs symlinkPath
               | Inl e \<Rightarrow> (None, fs)) of
           (Some e, fs1) \<Rightarrow> (Some (RemoveSymlinkFailed e), fs1)
         | (None, fs1) \<Rightarrow>
             (let relativePath = (case filepath_Rel (filepath_Dir symlinkPath) filePath of
                                    Inr r \<Rightarrow> r
                                  | Inl e \<Rightarrow> filePath) in
              case os_Symlink fs1 relativePath symlinkPath of
                (Some e, fs2) \<Rightarrow> (Some (CreateSymlinkFailed e), fs2)
              | (None, fs2) \<Rightarrow> (None, fs2))))"

definition CheckForUpdates ::
  "Env \<Rightarrow> Updater \<Rightarrow> World \<Rightarrow> (UpdaterError + bool \<times> string) \<times> World" where
  "CheckForUpdates env u w =
     (case GetRemoteVersion env u w of
        (Inl e, w1) \<Rightarrow> (Inl e, w1)
      | (Inr remoteVersion, w1) \<Rightarrow>
          (case GetLocalVersion u (files w1) of
             Inl e \<Rightarrow> (Inl e, w1)
           | Inr localVersion \<Rightarrow>
               if localVersion = [] then (Inr (True, remoteVersion), w1)
               else (Inr (LessThan localVersion remoteVersion, remoteVersion), w1)))"

definition ensureDirectories :: "Updater \<Rightarrow> FileSystem \<Rightarrow> Errno option \<times> FileSystem" where
  "ensureDirectories u fs =
     (case os_MkdirAll fs (workDir u) of
        (Some e, fs1) \<Rightarrow> (Some e, fs1)
      | (None, fs1) \<Rightarrow>
          (case config u of
             None \<Rightarrow> (None, fs1)
           | Some cfg \<Rightarrow>
               (case os_MkdirAll fs1 (DownloadDir cfg) of
                  (Some e, fs2) \<Rightarrow> (Some e, fs2)
                | (None, fs2) \<Rightarrow>
                    (case os_MkdirAll fs2 (filepath_Dir (LatestSymlink cfg)) of
                       (Some e, fs3) \<Rightarrow> (Some e, fs3)
                     | (None, fs3) \<Rightarrow> os_MkdirAll fs3 (filepath_Dir (LedgerPath cfg))))))"

text \<open>
  The two GET requests of \<open>DownloadCursor\<close>: the configured URL, and the \<open>Location\<close> of
  its answer when the answer is a redirect (302 or 301).
\<close>

definition fetch :: "Env \<Rightarrow> Updater \<Rightarrow> World \<Rightarrow> (UpdaterError + Response) \<times> World" where
  "fetch env u w =
     (let w1 = send (GET (downloadURL u)) w in
      case http_Get env (downloadURL u) of
        Inl e \<Rightarrow> (Inl (DownloadFailed e), w1)
      | Inr resp \<Rightarrow>
          if StatusCode resp = 302 \<or> StatusCode resp = 301 then
            (if Location resp = [] then (Inl RedirectLocationNotFound, w1)
             else let w2 = send (GET (Location resp)) w1 in
               (case http_Get env (Location resp) of
                  Inl e \<Rightarrow> (Inl (RedirectDownloadFailed e), w2)
                | Inr resp2 \<Rightarrow> (Inr resp2, w2)))
          else (Inr resp, w1))"

definition DownloadCursor :: "Env \<Rightarrow> Updater \<Rightarrow> World \<Rightarrow> (UpdaterError + string) \<times> World" where
  "DownloadCursor env u w =
     (case GetRemoteVersion env u w of
        (Inl e, w1) \<Rightarrow> (Inl (GetRemoteVersionFailed e), w1)
      | (Inr remoteVersion, w1) \<Rightarrow>
          (let filename = GenerateFileName u remoteVersion;
               path = getDownloadPath u filename in
           case os_Stat (files w1) path of
             Inr n \<Rightarrow> (Inr filename, w1)
           | Inl e0 \<Rightarrow>
               (case fetch env u w1 of
                  (Inl e, w2) \<Rightarrow> (Inl e, w2)
                | (Inr resp, w2) \<Rightarrow>
                    if StatusCode resp \<noteq> 200 then (Inl (DownloadStatus (StatusCode resp)), w2)
                    else (case ensureDirectories u (files w2) of
                            (Some e, fs3) \<Rightarrow> (Inl (EnsureDirectoriesFailed e), w2\<lparr>files := fs3\<rparr>)
                          | (None, fs3) \<Rightarrow>
                              (case os_Create fs3 path of
                                 Inl e \<Rightarrow> (Inl (CreateFileFailed e), w2\<lparr>files := fs3\<rparr>)
                               | Inr (q, fs4) \<Rightarrow>
                                   (let fs5 = file_Write fs4 q (Body resp) in
                                    case os_Chmod fs5 path of
                                      Some e \<Rightarrow> (Inl (MakeExecutableFailed e), w2\<lparr>files := fs5\<rparr>)
                                    | None \<Rightarrow> (Inr filename, w2\<lparr>files := fs5\<rparr>)))))))"

definition CalculateSHA256 :: "Env \<Rightarrow> FileSystem \<Rightarrow> string \<Rightarrow> Errno + string" where
  "CalculateSHA256 env fs path =
     (case os_Open fs path of
        Inl e \<Rightarrow> Inl e
      | Inr (Regular content) \<Rightarrow> Inr (sha256_hex env content)
      | Inr n \<Rightarrow> Inl EISDIR)"

section \<open>Package cli (internal/cli/run.go)\<close>

definition updateVersionFile :: "string \<Rightarrow> Config \<Rightarrow> World \<Rightarrow> World" where
  "updateVersionFile version cfg w =
     (case os_WriteFile (files w) (filepath_Join (DownloadDir cfg) ''.cursor-version'')
             (''VERSION='' @ version @ [CHR 0x0A]) of
        (Some e, fs1) \<Rightarrow> warn (WarnVersionFile e) (w\<lparr>files := fs1\<rparr>)
      | (None, fs1) \<Rightarrow> w\<lparr>files := fs1\<rparr>)"

text \<open>
  The end of \<open>executeUpdate\<close>, \<open>executeForce\<close> and \<open>executeSwitch\<close>: the entry is
  appended to the ledger (a failure is a warning on the standard error), the version
  file is written, the closing line is printed and the action returns no error.
\<close>

definition log_and_finish ::
  "Env \<Rightarrow> string \<Rightarrow> Config \<Rightarrow> Entry \<Rightarrow> (LedgerError \<Rightarrow> Message) \<Rightarrow> Message \<Rightarrow> World
     \<Rightarrow> CliError option \<times> World" where
  "log_and_finish env led cfg entry warning done w =
     (case Ledger_Append env led entry (files w) of
        (r, fs1) \<Rightarrow>
          (let w1 = (case r of
                       Some e \<Rightarrow> warn (warning e) (w\<lparr>files := fs1\<rparr>)
                     | None \<Rightarrow> w\<lparr>files := fs1\<rparr>);
               w2 = updateVersionFile (Version entry) cfg w1
           in (None, say done w2)))"

text \<open>
  The part \<open>executeUpdate\<close> and \<open>executeForce\<close> share after their first lines:
  download, digest, switch, ledger entry.
\<close>

definition download_and_switch ::
  "Env \<Rightarrow> Updater \<Rightarrow> string \<Rightarrow> Config \<Rightarrow> string \<Rightarrow> string \<Rightarrow> Message \<Rightarrow> World
     \<Rightarrow> CliError option \<times> World" where
  "download_and_switch env up led cfg remoteVersion action done w =
     (case DownloadCursor env up w of
        (Inl e, w1) \<Rightarrow> (Some (ErrorDownloading e), w1)
      | (Inr filename, w1) \<Rightarrow>
          (let w2 = say BlankLine w1;
               filePath = filepath_Join (workDir up) filename in
           case CalculateSHA256 env (files w2) filePath of
             Inl e \<Rightarrow> (Some (ErrorCalculatingSHA256 e), w2)
           | Inr sha256 \<Rightarrow>
               (case SwitchToVersion up remoteVersion (files w2) of
                  (Some e, fs3) \<Rightarrow> (Some (ErrorSwitching e), w2\<lparr>files := fs3\<rparr>)
                | (None, fs3) \<Rightarrow>
                    log_and_finish env led cfg
                      \<lparr> Timestamp = time_Now env, Version = remoteVersion, InternalID = [],
                        Filename = filename, SHA256 = sha256, Action = action \<rparr>
                      WarnLogUpdate done (w2\<lparr>files := fs3\<rparr>))))"

definition executeUpdate ::
  "Env \<Rightarrow> Updater \<Rightarrow> string \<Rightarrow> Config \<Rightarrow> World \<Rightarrow> CliError option \<times> World" where
  "executeUpdate env up led cfg w =
     (case CheckForUpdates env up w of
        (Inl e, w1) \<Rightarrow> (Some (ErrorCheckingForUpdates e), w1)
      | (Inr (needsUpdate, remoteVersion), w1) \<Rightarrow>
          if \<not> needsUpdate then
            (let localVersion = (case GetLocalVersion up (files w1) of
                                   Inr v \<Rightarrow> v
                                 | Inl e \<Rightarrow> [])
             in (None, say (AlreadyUpToDate localVersion) w1))
          else
            (let w2 = say (DownloadingCursor remoteVersion) w1;
                 w3 = (if test_mode env then say TestModeDownload w2 else w2)
             in download_and_switch env up led cfg remoteVersion ''update''
                  (UpdatedTo remoteVersion) w3))"

definition executeForce ::
  "Env \<Rightarrow> Updater \<Rightarrow> string \<Rightarrow> Config \<Rightarrow> World \<Rightarrow> CliError option \<times> World" where
  "executeForce env up led cfg w =
     (case GetRemoteVersion env up w of
        (Inl e, w1) \<Rightarrow> (Some (ErrorGettingRemoteVersion e), w1)
      | (Inr remoteVersion, w1) \<Rightarrow>
          (let filename = GenerateFileName up remoteVersion;
               filePath = filepath_Join (workDir up) filename;
               w2 = (case os_Stat (files w1) filePath of
                       Inl e \<Rightarrow> w1
                     | Inr n \<Rightarrow>
                         (case os_Remove (files w1) filePath of
                            (Some e, fs2) \<Rightarrow> warn (WarnRemoveExisting e) (w1\<lparr>files := fs2\<rparr>)
                          | (None, fs2) \<Rightarrow> w1\<lparr>files := fs2\<rparr>));
               w3 = say (ForceDownloadingCursor remoteVersion) w2;
               w4 = (if test_mode env then say TestModeForceDownload w3 else w3)
           in download_and_switch env up led cfg remoteVersion ''force''
                (ForceUpdatedTo remoteVersion) w4))"

definition executeSwitch ::
  "Env \<Rightarrow> Updater \<Rightarrow> string \<Rightarrow> string \<Rightarrow> Config \<Rightarrow> World \<Rightarrow> CliError option \<times> World" where
  "executeSwitch env up led ver cfg w =
     (if SemverFromName (''Cursor-'' @ ver @ ''-x86_64.AppImage'') = []
        then (Some (InvalidVersionFormat ver), w)
      else (case SwitchToVersion up ver (files w) of
              (Some e, fs1) \<Rightarrow> (Some (ErrorSwitching e), w\<lparr>files := fs1\<rparr>)
            | (None, fs1) \<Rightarrow>
                log_and_finish env led cfg
                  \<lparr> Timestamp = time_Now env, Version = ver, InternalID = [],
                    Filename = GenerateFileName up ver, SHA256 = [], Action = ''switch'' \<rparr>
                  WarnLogSwitch (SwitchedTo ver) (w\<lparr>files := fs1\<rparr>)))"

section \<open>The properties the specification states\<close>

text \<open>
  The specification's reading of a version string: three components, cut at the
  dots, each a plain number, that is one or more decimal digits.
\<close>

definition plain_number :: "string \<Rightarrow> bool" where
  "plain_number s = (s \<noteq> [] \<and> list_all is_digit s)"

definition three_plain_numbers :: "string \<Rightarrow> bool" where
  "three_plain_numbers s =
     (case strings_Split s CHR ''.'' of
        [a, b, c] \<Rightarrow> plain_number a \<and> plain_number b \<and> plain_number c
      | parts \<Rightarrow> False)"

text \<open>
  What the parser takes for one component: an optional sign, one or more decimal
  digits, and a value that fits 64 bits.
\<close>

definition go_int_literal :: "string \<Rightarrow> bool" where
  "go_int_literal s =
     (\<exists>sgn ds. s = sgn @ ds \<and> (sgn = [] \<or> sgn = ''+'' \<or> sgn = ''-'') \<and> ds \<noteq> []
        \<and> list_all is_digit ds
        \<and> (if sgn = ''-'' then decimal ds \<le> 2 ^ 63 else decimal ds < 2 ^ 63))"

text \<open>The order of the version model: by major, then minor, then patch.\<close>

definition version_less :: "int \<times> int \<times> int \<Rightarrow> int \<times> int \<times> int \<Rightarrow> bool" where
  "version_less a b =
     (case a of (a1, a2, a3) \<Rightarrow> case b of (b1, b2, b3) \<Rightarrow>
        a1 < b1 \<or> (a1 = b1 \<and> (a2 < b2 \<or> (a2 = b2 \<and> a3 < b3))))"

text \<open>
  The number that a plain number denotes, read from its last digit on: units, tens,
  hundreds.  It has no upper bound.
\<close>

fun number_rev :: "string \<Rightarrow> int" where
  "number_rev [] = 0"
| "number_rev (c # cs) = (of_char c - 48) + 10 * number_rev cs"

definition number_of :: "string \<Rightarrow> int" where
  "number_of s = number_rev (rev s)"

text \<open>
  The version of the specification's version model: the triple of the numbers that
  three plain numbers denote; every other string is no version.  \<open>older_than\<close> is the
  specification's \<open>isOlderThan\<close>: the order of the version model on two versions,
  and false when one of the two strings is no version.
\<close>

definition spec_version :: "string \<Rightarrow> (int \<times> int \<times> int) option" where
  "spec_version s =
     (if three_plain_numbers s
      then (case strings_Split s CHR ''.'' of
              [a, b, c] \<Rightarrow> Some (number_of a, number_of b, number_of c)
            | parts \<Rightarrow> None)
      else None)"

definition older_than :: "string \<Rightarrow> string \<Rightarrow> bool" where
  "older_than a b =
     (case spec_version a of
        None \<Rightarrow> False
      | Some x \<Rightarrow> (case spec_version b of None \<Rightarrow> False | Some y \<Rightarrow> version_less x y))"

text \<open>
  The number that a signed literal within 64 bits denotes: an optional \<open>+\<close> or \<open>-\<close>,
  then a plain number, below \<open>2^63\<close>, or at most \<open>2^63\<close> after \<open>-\<close>.
  \<open>accepted_version\<close> is the triple that three such literals, cut at the dots,
  denote, and \<open>older_accepted\<close> the order of the version model on these triples.
\<close>

definition signed_number :: "string \<Rightarrow> int option" where
  "signed_number s =
     (case s of
        [] \<Rightarrow> None
      | c # ds \<Rightarrow>
          if c = CHR ''-''
          then (if plain_number ds \<and> number_of ds \<le> 2 ^ 63 then Some (- number_of ds) else None)
          else if c = CHR ''+''
          then (if plain_number ds \<and> number_of ds < 2 ^ 63 then Some (number_of ds) else None)
          else (if plain_number s \<and> number_of s < 2 ^ 63 then Some (number_of s) else None))"

definition accepted_version :: "string \<Rightarrow> (int \<times> int \<times> int) option" where
  "accepted_version s =
     (case strings_Split s CHR ''.'' of
        [a, b, c] \<Rightarrow>
          (case signed_number a of
             None \<Rightarrow> None
           | Some x \<Rightarrow>
          (case signed_number b of
             None \<Rightarrow> None
           | Some y \<Rightarrow>
          (case signed_number c of
             None \<Rightarrow> None
           | Some z \<Rightarrow> Some (x, y, z))))
      | parts \<Rightarrow> None)"

definition older_accepted :: "string \<Rightarrow> string \<Rightarrow> bool" where
  "older_accepted a b =
     (case accepted_version a of
        None \<Rightarrow> False
      | Some x \<Rightarrow> (case accepted_version b of None \<Rightarrow> False | Some y \<Rightarrow> version_less x y))"

text \<open>
  \<open>sign_free s\<close>: no component of \<open>s\<close> begins with a sign.  \<open>fits_64_bits s\<close>: every
  component of \<open>s\<close> that is a plain number is below \<open>2^63\<close>.
\<close>

definition sign_free :: "string \<Rightarrow> bool" where
  "sign_free s =
     list_all (\<lambda>p. p = [] \<or> (hd p \<noteq> CHR ''+'' \<and> hd p \<noteq> CHR ''-''))
       (strings_Split s CHR ''.'')"

definition fits_64_bits :: "string \<Rightarrow> bool" where
  "fits_64_bits s =
     list_all (\<lambda>p. \<not> plain_number p \<or> number_of p < 2 ^ 63) (strings_Split s CHR ''.'')"

text \<open>
  \<open>first_latest es i\<close>: the entry at position \<open>i\<close> has the greatest timestamp of \<open>es\<close>,
  and every entry before it has a smaller one.
\<close>

definition first_latest :: "Entry list \<Rightarrow> nat \<Rightarrow> bool" where
  "first_latest es i =
     (i < length es \<and> (\<forall>j < length es. Timestamp (es ! j) \<le> Timestamp (es ! i))
        \<and> (\<forall>j < i. Timestamp (es ! j) < Timestamp (es ! i)))"

text \<open>
  The strings the pattern of \<open>SemverFromName\<close> takes for a version: one or more
  plain numbers separated by dots.
\<close>

definition dotted_digits :: "string \<Rightarrow> bool" where
  "dotted_digits v = (\<forall>p \<in> set (strings_Split v CHR ''.''). plain_number p)"

text \<open>
  A line of the ledger is well formed when it splits into six fields at its tabs and
  the first field parses as a timestamp; \<open>line_entry\<close> is the entry it stands for.
\<close>

definition well_formed_line :: "Env \<Rightarrow> string \<Rightarrow> bool" where
  "well_formed_line env l =
     (length (strings_Split l CHR 0x09) = 6
      \<and> time_Parse env (hd (strings_Split l CHR 0x09)) \<noteq> None)"

definition line_entry :: "Env \<Rightarrow> string \<Rightarrow> Entry" where
  "line_entry env l =
     (let parts = strings_Split l CHR 0x09 in
      \<lparr> Timestamp = the (time_Parse env (parts ! 0)), Version = parts ! 1,
        InternalID = parts ! 2, Filename = parts ! 3, SHA256 = parts ! 4,
        Action = parts ! 5 \<rparr>)"

text \<open>Appending the entries of a list one by one, stopping at the first failure.\<close>

fun append_all ::
  "Env \<Rightarrow> string \<Rightarrow> Entry list \<Rightarrow> FileSystem \<Rightarrow> LedgerError option \<times> FileSystem" where
  "append_all env path [] fs = (None, fs)"
| "append_all env path (entry # rest) fs =
     (case Ledger_Append env path entry fs of
        (Some e, fs1) \<Rightarrow> (Some e, fs1)
      | (None, fs1) \<Rightarrow> append_all env path rest fs1)"

text \<open>
  The entries a line can carry: no field (the formatted timestamp included) holds a
  tab or a line feed, the line neither begins nor ends with white space and is
  shorter than the scanner's buffer, and the timestamp is one the formatter and the
  parser agree on (in Go: a whole second of a year from 0 to 9999).
\<close>

definition storable :: "Env \<Rightarrow> Entry \<Rightarrow> bool" where
  "storable env entry =
     ((\<forall>f \<in> set [time_Format env (Timestamp entry), Version entry, InternalID entry,
                  Filename entry, SHA256 entry, Action entry].
          CHR 0x09 \<notin> set f \<and> CHR 0x0A \<notin> set f)
      \<and> strings_TrimSpace (entry_fields env entry) = entry_fields env entry
      \<and> int (length (entry_fields env entry)) < MaxScanTokenSize
      \<and> time_Parse env (time_Format env (Timestamp entry)) = Some (Timestamp entry))"

section \<open>Sample runs\<close>

text \<open>
  An environment, a configuration and some file systems to run the program on.  The
  formatter and the parser of \<open>sample_env\<close> are Go's on the three instants they list.
\<close>

definition sample_env :: Env where
  "sample_env =
     \<lparr> time_Format = (\<lambda>t. if t = 1704110400 then ''2024-01-01T12:00:00Z''
                          else if t = 1704196800 then ''2024-01-02T12:00:00Z''
                          else ''1970-01-01T00:00:00Z''),
       time_Parse = (\<lambda>s. if s = ''2024-01-01T12:00:00Z'' then Some 1704110400
                         else if s = ''2024-01-02T12:00:00Z'' then Some 1704196800
                         else if s = ''1970-01-01T00:00:00Z'' then Some 0
                         else None),
       time_Now = 1704196800,
       sha256_hex = (\<lambda>c. ''e3b0c44298fc1c14''),
       http_Head = (\<lambda>url. Inr ''https://downloads.cursor.com/linux/x64/Cursor-1.4.5-x86_64.AppImage''),
       http_Get = (\<lambda>url. Inr \<lparr> StatusCode = 200, Location = [], Body = ''image'' \<rparr>),
       test_mode = False \<rparr>"

text \<open>The same environment, where the download URL leads to version \<open>2^63.0.0\<close>.\<close>

definition env_large_remote :: Env where
  "env_large_remote =
     sample_env\<lparr>http_Head := (\<lambda>url. Inr
        ''https://downloads.cursor.com/linux/x64/Cursor-9223372036854775808.0.0-x86_64.AppImage'')\<rparr>"

definition sample_config :: Config where
  "sample_config =
     \<lparr> DownloadDir = ''/w'', FileNamePattern = ''Cursor-<version>-x86_64.AppImage'',
       LatestSymlink = ''/w/Cursor.AppImage'', LedgerPath = ''/w/ledger.log'' \<rparr>"

definition sample_updater :: Updater where
  "sample_updater =
     NewUpdater ''https://www.cursor.com/download/stable/linux-x64'' ''/w'' (Some sample_config)"

definition world_of :: "FileSystem \<Rightarrow> World" where
  "world_of fs = \<lparr> files = fs, requests = [], stdout = [], stderr = [] \<rparr>"

text \<open>The current reference is a link to the artifact of version 1.0.0.\<close>

definition fs_linked_old :: FileSystem where
  "fs_linked_old =
     [(''/w'', Directory),
      (''/w/Cursor-1.0.0-x86_64.AppImage'', Regular ''abcd''),
      (''/w/Cursor.AppImage'', Symlink ''Cursor-1.0.0-x86_64.AppImage'')]"

text \<open>
  The current reference is a copy of the artifact of version 1.0.0, and the
  directory holds a second copy under another name.
\<close>

definition fs_copy :: FileSystem where
  "fs_copy =
     [(''/w'', Directory),
      (''/w/Backup.AppImage'', Regular ''abcd''),
      (''/w/Cursor-1.0.0-x86_64.AppImage'', Regular ''abcd''),
      (''/w/Cursor.AppImage'', Regular ''abcd'')]"

text \<open>The current reference is a link to the artifact of version 1.4.5, the remote version.\<close>

definition fs_linked_current :: FileSystem where
  "fs_linked_current =
     [(''/w'', Directory),
      (''/w/Cursor-1.4.5-x86_64.AppImage'', Regular ''image''),
      (''/w/Cursor.AppImage'', Symlink ''Cursor-1.4.5-x86_64.AppImage'')]"

text \<open>No artifact and no current reference yet, and the ledger path is a directory.\<close>

definition fs_ledger_blocked :: FileSystem where
  "fs_ledger_blocked = [(''/w'', Directory), (''/w/ledger.log'', Directory)]"

text \<open>An artifact named for the two-component version 1.4.\<close>

definition fs_two_components :: FileSystem where
  "fs_two_components = [(''/w'', Directory), (''/w/Cursor-1.4-x86_64.AppImage'', Regular ''abcd'')]"

text \<open>A ledger of three lines; the second and the third carry the same, latest timestamp.\<close>

definition fs_ledger :: FileSystem where
  "fs_ledger =
     [(''/w'', Directory),
      (''/w/ledger.log'', Regular
         (''2024-01-01T12:00:00Z'' @ [CHR 0x09] @ ''1.0.0'' @ [CHR 0x09, CHR 0x09] @ ''a''
            @ [CHR 0x09, CHR 0x09] @ ''update'' @ [CHR 0x0A]
          @ ''2024-01-02T12:00:00Z'' @ [CHR 0x09] @ ''1.1.0'' @ [CHR 0x09, CHR 0x09] @ ''b''
            @ [CHR 0x09, CHR 0x09] @ ''update'' @ [CHR 0x0A]
          @ ''2024-01-02T12:00:00Z'' @ [CHR 0x09] @ ''1.0.0'' @ [CHR 0x09, CHR 0x09] @ ''a''
            @ [CHR 0x09, CHR 0x09] @ ''switch'' @ [CHR 0x0A]))]"

text \<open>
  A ledger of one line whose last field, the action, is empty; and a ledger of one
  good line followed by a line of 65536 bytes.
\<close>

definition line_without_action :: string where
  "line_without_action =
     ''2024-01-01T12:00:00Z'' @ [CHR 0x09] @ ''1.0.0'' @ [CHR 0x09, CHR 0x09] @ ''a''
       @ [CHR 0x09, CHR 0x09]"

definition good_line :: string where
  "good_line =
     ''2024-01-01T12:00:00Z'' @ [CHR 0x09] @ ''1.0.0'' @ [CHR 0x09, CHR 0x09] @ ''a''
       @ [CHR 0x09, CHR 0x09] @ ''update''"

definition fs_with_ledger :: "string \<Rightarrow> FileSystem" where
  "fs_with_ledger content = [(''/w'', Directory), (''/w/ledger.log'', Regular content)]"

text \<open>The work directory, empty.\<close>

definition fs_workdir :: FileSystem where
  "fs_workdir = [(''/w'', Directory)]"

definition ledger_entry :: "int \<Rightarrow> string \<Rightarrow> string \<Rightarrow> string \<Rightarrow> Entry" where
  "ledger_entry t v f a =
     \<lparr> Timestamp = t, Version = v, InternalID = [], Filename = f, SHA256 = [], Action = a \<rparr>"

section \<open>Lemmas about the library functions\<close>

lemma Split_not_Nil: "strings_Split s sep \<noteq> []"
  by (induction s) (auto split: list.splits)

lemma Split_no_sep: "sep \<notin> set s \<Longrightarrow> strings_Split s sep = [s]"
  by (induction s) auto

lemma Split_append:
  "sep \<notin> set a \<Longrightarrow> strings_Split (a @ sep # r) sep = a # strings_Split r sep"
  by (induction a) auto

lemma Split_parts_no_sep: "p \<in> set (strings_Split s sep) \<Longrightarrow> sep \<notin> set p"
  by (induction s arbitrary: p) (auto split: if_splits list.splits)

lemma Split_Cons_cases:
  "strings_Split s sep = p # ps \<Longrightarrow>
     (ps = [] \<and> s = p) \<or> (\<exists>r. s = p @ sep # r \<and> strings_Split r sep = ps)"
proof (induction s arbitrary: p ps)
  case Nil
  then show ?case by simp
next
  case (Cons c cs)
  show ?case
  proof (cases "c = sep")
    case True
    with Cons.prems show ?thesis by auto
  next
    case False
    obtain q qs where q: "strings_Split cs sep = q # qs"
      using Split_not_Nil [of cs sep] by (cases "strings_Split cs sep") auto
    with False Cons.prems have p: "p = c # q" "ps = qs" by auto
    from Cons.IH [OF q] show ?thesis
      using p by auto
  qed
qed

lemma Split_three_iff:
  "strings_Split s sep = [a, b, c] \<longleftrightarrow>
     s = a @ sep # b @ sep # c \<and> sep \<notin> set a \<and> sep \<notin> set b \<and> sep \<notin> set c"
proof
  assume h: "strings_Split s sep = [a, b, c]"
  have ns: "sep \<notin> set a" "sep \<notin> set b" "sep \<notin> set c"
    using Split_parts_no_sep [of _ s sep] h by auto
  from Split_Cons_cases [OF h] obtain r where
    r: "s = a @ sep # r" "strings_Split r sep = [b, c]"
    by auto
  from Split_Cons_cases [OF r(2)] obtain r' where
    r': "r = b @ sep # r'" "strings_Split r' sep = [c]"
    by auto
  from Split_Cons_cases [OF r'(2)] have "r' = c"
    using Split_not_Nil [of _ sep] by auto
  with r r' ns
  show "s = a @ sep # b @ sep # c \<and> sep \<notin> set a \<and> sep \<notin> set b \<and> sep \<notin> set c"
    by simp
next
  assume "s = a @ sep # b @ sep # c \<and> sep \<notin> set a \<and> sep \<notin> set b \<and> sep \<notin> set c"
  then show "strings_Split s sep = [a, b, c]"
    by (simp add: Split_append Split_no_sep)
qed

lemma digit_not_sign:
  "is_digit c \<Longrightarrow> c \<noteq> CHR ''-'' \<and> c \<noteq> CHR ''+'' \<and> c \<noteq> CHR ''.''"
  by (auto simp: is_digit_def)

lemma digit_val_range: "is_digit c \<Longrightarrow> 0 \<le> digit_val c \<and> digit_val c \<le> 9"
  by (auto simp: is_digit_def digit_val_def)

lemma foldl_digits_ge:
  "list_all is_digit s \<Longrightarrow> 0 \<le> n \<Longrightarrow> n \<le> foldl (\<lambda>n c. n * 10 + digit_val c) n s"
proof (induction s arbitrary: n)
  case Nil
  then show ?case by simp
next
  case (Cons c cs)
  from Cons.prems have d: "0 \<le> digit_val c" and a: "list_all is_digit cs"
    using digit_val_range by auto
  with Cons.prems have "0 \<le> n * 10 + digit_val c" by simp
  from Cons.IH [OF a this] d Cons.prems(2) show ?case by simp
qed

lemma parse_digits_iff:
  "0 \<le> n \<Longrightarrow> n < 2 ^ 64 \<Longrightarrow>
     parse_digits n s = Inr m \<longleftrightarrow>
       list_all is_digit s \<and> m = foldl (\<lambda>n c. n * 10 + digit_val c) n s \<and> m < 2 ^ 64"
proof (induction s arbitrary: n)
  case Nil
  then show ?case by auto
next
  case (Cons c cs)
  show ?case
  proof (cases "is_digit c")
    case False
    then show ?thesis by simp
  next
    case True
    then have d: "0 \<le> digit_val c" "digit_val c \<le> 9" using digit_val_range by auto
    let ?n1 = "n * 10 + digit_val c"
    have n1: "0 \<le> ?n1" using d Cons.prems by simp
    show ?thesis
    proof (cases "?n1 < 2 ^ 64")
      case small: True
      then have "\<not> 1844674407370955162 \<le> n" using d by simp
      moreover from small have "\<not> 18446744073709551615 < ?n1" by simp
      ultimately have "parse_digits n (c # cs) = parse_digits ?n1 cs" using True by simp
      with Cons.IH [OF n1 small] True show ?thesis by simp
    next
      case big: False
      then have "1844674407370955162 \<le> n \<or> 18446744073709551615 < ?n1" by simp
      with True have "parse_digits n (c # cs) = Inl ErrRange" by auto
      moreover have "\<not> foldl (\<lambda>n c. n * 10 + digit_val c) ?n1 cs < 2 ^ 64"
        if "list_all is_digit cs"
        using foldl_digits_ge [OF that n1] big by simp
      ultimately show ?thesis by auto
    qed
  qed
qed

lemma ParseUint_iff:
  "strconv_ParseUint s = Inr m \<longleftrightarrow> s \<noteq> [] \<and> list_all is_digit s \<and> m = decimal s \<and> m < 2 ^ 64"
  using parse_digits_iff [of 0 s m] by (auto simp: strconv_ParseUint_def decimal_def)

lemma decimal_bound: "list_all is_digit s \<Longrightarrow> decimal s < 10 ^ length s"
proof -
  have "list_all is_digit s \<Longrightarrow> 0 \<le> n \<Longrightarrow>
          foldl (\<lambda>n c. n * 10 + digit_val c) n s < (n + 1) * 10 ^ length s" for n
  proof (induction s arbitrary: n)
    case Nil
    then show ?case by simp
  next
    case (Cons c cs)
    then have d: "0 \<le> digit_val c" "digit_val c \<le> 9" and a: "list_all is_digit cs"
      using digit_val_range by auto
    have n1: "0 \<le> n * 10 + digit_val c" using d Cons.prems by simp
    have "foldl (\<lambda>n c. n * 10 + digit_val c) (n * 10 + digit_val c) cs
            < (n * 10 + digit_val c + 1) * 10 ^ length cs"
      by (rule Cons.IH [OF a n1])
    also have "\<dots> \<le> ((n + 1) * 10) * 10 ^ length cs"
      using d by (intro mult_right_mono) auto
    also have "\<dots> = (n + 1) * 10 ^ length (c # cs)" by simp
    finally show ?case by simp
  qed
  from this [of 0] show "list_all is_digit s \<Longrightarrow> decimal s < 10 ^ length s"
    by (simp add: decimal_def)
qed

lemma decimal_short:
  assumes "list_all is_digit s" and "length s < 19"
  shows "decimal s < 2 ^ 63"
proof -
  have "decimal s < 10 ^ length s" by (rule decimal_bound [OF assms(1)])
  also have "(10::int) ^ length s \<le> 10 ^ 18"
    using assms(2) by (intro power_increasing) auto
  also have "(10::int) ^ 18 < 2 ^ 63" by simp
  finally show ?thesis .
qed

lemma Atoi_Inr_iff:
  "strconv_Atoi s = Inr n \<longleftrightarrow>
     (let neg = (s \<noteq> [] \<and> hd s = CHR ''-'');
          ds = (if s \<noteq> [] \<and> (hd s = CHR ''-'' \<or> hd s = CHR ''+'') then tl s else s)
      in ds \<noteq> [] \<and> list_all is_digit ds
         \<and> (if neg then decimal ds \<le> 2 ^ 63 \<and> n = - decimal ds
             else decimal ds < 2 ^ 63 \<and> n = decimal ds))"
proof (cases "s = []")
  case True
  then show ?thesis by (simp add: strconv_Atoi_def strconv_ParseInt_def)
next
  case ne: False
  define ds where "ds = (if hd s = CHR ''-'' \<or> hd s = CHR ''+'' then tl s else s)"
  have len: "length ds \<le> length s" by (simp add: ds_def)
  show ?thesis
  proof (cases "int (length s) < 19")
    case True
    then have short: "length ds < 19" using len by simp
    have "decimal ds < 2 ^ 63" if "list_all is_digit ds"
      using decimal_short [OF that short] .
    with ne True show ?thesis
      unfolding strconv_Atoi_def Let_def ds_def [symmetric]
      by (auto simp: ds_def)
  next
    case False
    with ne have a: "strconv_Atoi s = strconv_ParseInt s" by (simp add: strconv_Atoi_def)
    have pi: "strconv_ParseInt s =
        (case strconv_ParseUint ds of
           Inl ErrSyntax \<Rightarrow> Inl ErrSyntax
         | Inl ErrRange \<Rightarrow> Inl ErrRange
         | Inr un \<Rightarrow>
             if hd s \<noteq> CHR ''-'' \<and> 2 ^ 63 \<le> un then Inl ErrRange
             else if hd s = CHR ''-'' \<and> 2 ^ 63 < un then Inl ErrRange
             else Inr (if hd s = CHR ''-'' then - un else un))"
      using ne by (auto simp: strconv_ParseInt_def Let_def ds_def)
    have goal: "?thesis \<longleftrightarrow>
      (strconv_ParseInt s = Inr n \<longleftrightarrow>
        ds \<noteq> [] \<and> list_all is_digit ds
         \<and> (if hd s = CHR ''-'' then decimal ds \<le> 2 ^ 63 \<and> n = - decimal ds
             else decimal ds < 2 ^ 63 \<and> n = decimal ds))"
      unfolding a Let_def using ne by (simp add: ds_def)
    show ?thesis
    proof (cases "strconv_ParseUint ds")
      case (Inl e)
      then have "\<not> (ds \<noteq> [] \<and> list_all is_digit ds \<and> decimal ds < 2 ^ 64)"
        using ParseUint_iff [of ds "decimal ds"] by auto
      then have "\<not> (ds \<noteq> [] \<and> list_all is_digit ds \<and> decimal ds \<le> 2 ^ 63)" by auto
      moreover from Inl have "strconv_ParseInt s \<noteq> Inr n"
        unfolding pi by (cases e) auto
      ultimately show ?thesis unfolding goal by auto
    next
      case (Inr un)
      then have u: "ds \<noteq> []" "list_all is_digit ds" "un = decimal ds"
        using ParseUint_iff [of ds un] by auto
      have "strconv_ParseInt s =
          (if hd s \<noteq> CHR ''-'' \<and> 2 ^ 63 \<le> un then Inl ErrRange
           else if hd s = CHR ''-'' \<and> 2 ^ 63 < un then Inl ErrRange
           else Inr (if hd s = CHR ''-'' then - un else un))"
        unfolding pi Inr by simp
      with u show ?thesis unfolding goal by auto
    qed
  qed
qed

lemma Atoi_ok_iff: "(\<exists>n. strconv_Atoi s = Inr n) \<longleftrightarrow> go_int_literal s"
proof
  assume "\<exists>n. strconv_Atoi s = Inr n"
  then obtain n where n: "strconv_Atoi s = Inr n" ..
  define sgn where
    "sgn = (if s \<noteq> [] \<and> (hd s = CHR ''-'' \<or> hd s = CHR ''+'') then [hd s] else [])"
  define ds where
    "ds = (if s \<noteq> [] \<and> (hd s = CHR ''-'' \<or> hd s = CHR ''+'') then tl s else s)"
  have "s = sgn @ ds" by (cases s) (auto simp: sgn_def ds_def)
  moreover have "sgn = [] \<or> sgn = ''+'' \<or> sgn = ''-''" by (auto simp: sgn_def)
  moreover from n have "ds \<noteq> []" "list_all is_digit ds"
    by (auto simp: Atoi_Inr_iff Let_def ds_def split: if_splits)
  moreover from n have "if sgn = ''-'' then decimal ds \<le> 2 ^ 63 else decimal ds < 2 ^ 63"
    by (auto simp: Atoi_Inr_iff Let_def ds_def sgn_def split: if_splits)
  ultimately show "go_int_literal s" unfolding go_int_literal_def by blast
next
  assume "go_int_literal s"
  then obtain sgn ds where h: "s = sgn @ ds" "sgn = [] \<or> sgn = ''+'' \<or> sgn = ''-''"
    "ds \<noteq> []" "list_all is_digit ds"
    "if sgn = ''-'' then decimal ds \<le> 2 ^ 63 else decimal ds < 2 ^ 63"
    unfolding go_int_literal_def by blast
  from h(3,4) have hd: "is_digit (hd ds)" by (cases ds) auto
  from h(2) show "\<exists>n. strconv_Atoi s = Inr n"
  proof (elim disjE)
    assume "sgn = []"
    with h hd digit_not_sign [of "hd ds"] show ?thesis
      by (auto simp: Atoi_Inr_iff Let_def)
  next
    assume "sgn = ''+''"
    with h show ?thesis by (auto simp: Atoi_Inr_iff Let_def)
  next
    assume "sgn = ''-''"
    with h show ?thesis by (auto simp: Atoi_Inr_iff Let_def)
  qed
qed

lemma literal_no_dot:
  assumes "go_int_literal s"
  shows "CHR ''.'' \<notin> set s"
proof -
  obtain sgn ds where h: "s = sgn @ ds" "sgn = [] \<or> sgn = ''+'' \<or> sgn = ''-''"
    "list_all is_digit ds"
    using assms unfolding go_int_literal_def by blast
  have "\<not> is_digit CHR ''.''" by (simp add: is_digit_def)
  with h(3) have "CHR ''.'' \<notin> set ds" unfolding list_all_iff by blast
  moreover from h(2) have "CHR ''.'' \<notin> set sgn" by auto
  ultimately show ?thesis using h(1) by simp
qed

lemma ParseSemver_ok_iff_split:
  "(\<exists>v. ParseSemver s = Inr v) \<longleftrightarrow>
     (\<exists>a b c. strings_Split s CHR ''.'' = [a, b, c] \<and> (\<exists>x. strconv_Atoi a = Inr x)
        \<and> (\<exists>y. strconv_Atoi b = Inr y) \<and> (\<exists>z. strconv_Atoi c = Inr z))"
proof
  assume "\<exists>v. ParseSemver s = Inr v"
  then obtain v where v: "ParseSemver s = Inr v" ..
  then have len: "length (strings_Split s CHR ''.'') = 3"
    by (auto simp: ParseSemver_def Let_def split: if_splits)
  then obtain a b c where abc: "strings_Split s CHR ''.'' = [a, b, c]"
    by (auto simp: length_Suc_conv numeral_3_eq_3)
  with v
  show "\<exists>a b c. strings_Split s CHR ''.'' = [a, b, c] \<and> (\<exists>x. strconv_Atoi a = Inr x)
        \<and> (\<exists>y. strconv_Atoi b = Inr y) \<and> (\<exists>z. strconv_Atoi c = Inr z)"
    by (auto simp: ParseSemver_def Let_def split: if_splits sum.splits)
next
  assume "\<exists>a b c. strings_Split s CHR ''.'' = [a, b, c] \<and> (\<exists>x. strconv_Atoi a = Inr x)
        \<and> (\<exists>y. strconv_Atoi b = Inr y) \<and> (\<exists>z. strconv_Atoi c = Inr z)"
  then obtain a b c x y z where h: "strings_Split s CHR ''.'' = [a, b, c]"
    "strconv_Atoi a = Inr x" "strconv_Atoi b = Inr y" "strconv_Atoi c = Inr z" by blast
  from h(1) have "s \<noteq> []" by auto
  with h show "\<exists>v. ParseSemver s = Inr v"
    by (simp add: ParseSemver_def Let_def)
qed

lemma version_body_iff:
  "version_body seen v \<longleftrightarrow>
     (case strings_Split v CHR ''.'' of
        [] \<Rightarrow> False
      | p # ps \<Rightarrow> (seen \<or> p \<noteq> []) \<and> list_all is_digit p \<and> (\<forall>q \<in> set ps. plain_number q))"
proof (induction v arbitrary: seen)
  case Nil
  then show ?case by simp
next
  case (Cons c cs)
  obtain p ps where s: "strings_Split cs CHR ''.'' = p # ps"
    using Split_not_Nil [of cs "CHR ''.''"] by (cases "strings_Split cs CHR ''.''") auto
  show ?case
  proof (cases "is_digit c")
    case True
    then have "c \<noteq> CHR ''.''" using digit_not_sign by blast
    with True s Cons.IH [of True] show ?thesis by simp
  next
    case False
    show ?thesis
    proof (cases "c = CHR ''.''")
      case True
      with False s Cons.IH [of False] show ?thesis by (auto simp: plain_number_def)
    next
      case F: False
      with False s show ?thesis by simp
    qed
  qed
qed

lemma version_body_dotted: "version_body False v = dotted_digits v"
  unfolding version_body_iff dotted_digits_def
  using Split_not_Nil [of v "CHR ''.''"]
  by (cases "strings_Split v CHR ''.''") (auto simp: plain_number_def)

section \<open>The version model\<close>

text \<open>
  C3, as the code has it.  \<open>ParseSemver\<close> accepts a string exactly when it is three
  components separated by two dots and each component is an optional \<open>+\<close> or \<open>-\<close>
  followed by one or more decimal digits whose value fits a 64-bit integer.  Every
  other string is rejected with an error.
\<close>

theorem ParseSemver_accepts_iff:
  "(\<exists>v. ParseSemver s = Inr v) \<longleftrightarrow>
     (\<exists>a b c. s = a @ ''.'' @ b @ ''.'' @ c
        \<and> go_int_literal a \<and> go_int_literal b \<and> go_int_literal c)"
proof
  assume "\<exists>v. ParseSemver s = Inr v"
  then obtain a b c where h: "strings_Split s CHR ''.'' = [a, b, c]"
    "go_int_literal a" "go_int_literal b" "go_int_literal c"
    unfolding ParseSemver_ok_iff_split Atoi_ok_iff by blast
  from h(1) have "s = a @ ''.'' @ b @ ''.'' @ c"
    unfolding Split_three_iff by simp
  with h show "\<exists>a b c. s = a @ ''.'' @ b @ ''.'' @ c
        \<and> go_int_literal a \<and> go_int_literal b \<and> go_int_literal c"
    by blast
next
  assume "\<exists>a b c. s = a @ ''.'' @ b @ ''.'' @ c
        \<and> go_int_literal a \<and> go_int_literal b \<and> go_int_literal c"
  then obtain a b c where h: "s = a @ ''.'' @ b @ ''.'' @ c"
    "go_int_literal a" "go_int_literal b" "go_int_literal c"
    by blast
  have "strings_Split s CHR ''.'' = [a, b, c]"
    unfolding Split_three_iff using h by (simp add: literal_no_dot)
  with h show "\<exists>v. ParseSemver s = Inr v"
    unfolding ParseSemver_ok_iff_split Atoi_ok_iff by blast
qed

text \<open>
  The theorem at \<open>+1.-2.3\<close>: the parser accepts it, so it is three signed literals.
\<close>

theorem ParseSemver_accepts_iff_witness:
  "ParseSemver ''+1.-2.3'' = Inr (1, - 2, 3)
   \<and> (\<exists>a b c. ''+1.-2.3'' = a @ ''.'' @ b @ ''.'' @ c
         \<and> go_int_literal a \<and> go_int_literal b \<and> go_int_literal c)"
proof -
  have p: "ParseSemver ''+1.-2.3'' = Inr (1, - 2, 3)" by code_simp
  then have "\<exists>v. ParseSemver ''+1.-2.3'' = Inr v" by blast
  with ParseSemver_accepts_iff [of "''+1.-2.3''"] p show ?thesis by blast
qed

text \<open>
  C3 as the specification states it fails in both directions: a component with a
  sign is accepted, and three plain numbers are rejected when one does not fit 64
  bits.
\<close>

theorem ParseSemver_plain_numbers_counterexample:
  "ParseSemver ''-1.2.3'' = Inr (- 1, 2, 3) \<and> \<not> three_plain_numbers ''-1.2.3''
   \<and> three_plain_numbers ''9223372036854775808.0.0''
   \<and> ParseSemver ''9223372036854775808.0.0'' = Inl (InvalidMajor ErrRange)"
  by code_simp

text \<open>
  C1: \<open>SemverFromName\<close> takes the file name only and knows the default shape only.
  The name that the configured pattern \<open>Cursor_<version>.AppImage\<close> generates for
  version 1.4.5 yields no version.
\<close>

theorem SemverFromName_ignores_configured_pattern:
  "Config_GenerateFileName (sample_config\<lparr>FileNamePattern := ''Cursor_<version>.AppImage''\<rparr>)
       ''1.4.5'' = ''Cursor_1.4.5.AppImage''
   \<and> SemverFromName ''Cursor_1.4.5.AppImage'' = []
   \<and> SemverFromName (Config_GenerateFileName sample_config ''1.4.5'') = ''1.4.5''"
  by code_simp

section \<open>The update decision\<close>

lemma LessThan_iff:
  "LessThan a b \<longleftrightarrow> (\<exists>x y. ParseSemver a = Inr x \<and> ParseSemver b = Inr y \<and> version_less x y)"
proof (cases "ParseSemver a")
  case (Inl e)
  then show ?thesis by (simp add: LessThan_def)
next
  case (Inr x)
  then have a: "a \<noteq> []" by (auto simp: ParseSemver_def)
  show ?thesis
  proof (cases "ParseSemver b")
    case (Inl e)
    with Inr show ?thesis by (simp add: LessThan_def split: prod.splits)
  next
    case y: (Inr y)
    then have b: "b \<noteq> []" by (auto simp: ParseSemver_def)
    obtain x1 x2 x3 where x: "x = (x1, x2, x3)" by (cases x)
    obtain y1 y2 y3 where yy: "y = (y1, y2, y3)" by (cases y)
    show ?thesis
      using Inr y a b x yy by (auto simp: LessThan_def version_less_def)
  qed
qed

lemma foldl_number_rev:
  "foldl (\<lambda>n c. n * 10 + digit_val c) n s = number_rev (rev s) + n * 10 ^ length s"
proof (induction s arbitrary: n)
  case Nil
  then show ?case by simp
next
  case (Cons c cs)
  have r: "number_rev (xs @ [c]) = number_rev xs + (of_char c - 48) * 10 ^ length xs" for xs
    by (induction xs) (simp_all add: algebra_simps)
  show ?case
    unfolding foldl_Cons Cons.IH by (simp add: r digit_val_def algebra_simps)
qed

lemma number_of_decimal: "number_of s = decimal s"
  by (simp add: number_of_def decimal_def foldl_number_rev)

lemma Atoi_signed_number: "strconv_Atoi s = Inr n \<longleftrightarrow> signed_number s = Some n"
proof (cases s)
  case Nil
  then show ?thesis by (simp add: Atoi_Inr_iff signed_number_def)
next
  case (Cons c ds)
  consider "c = CHR ''-''" | "c = CHR ''+''" | "c \<noteq> CHR ''-''" "c \<noteq> CHR ''+''" by blast
  then show ?thesis
  proof cases
    case 1
    with Cons show ?thesis
      by (auto simp: Atoi_Inr_iff signed_number_def plain_number_def number_of_decimal Let_def)
  next
    case 2
    with Cons show ?thesis
      by (auto simp: Atoi_Inr_iff signed_number_def plain_number_def number_of_decimal Let_def)
  next
    case 3
    with Cons show ?thesis
      by (auto simp: Atoi_Inr_iff signed_number_def plain_number_def number_of_decimal Let_def)
  qed
qed

lemma signed_number_Atoi:
  "signed_number p = (case strconv_Atoi p of Inl e \<Rightarrow> None | Inr n \<Rightarrow> Some n)"
proof (cases "strconv_Atoi p")
  case (Inl e)
  have "signed_number p \<noteq> Some n" for n
    using Atoi_signed_number [of p n] Inl by simp
  then have "signed_number p = None" by (cases "signed_number p") auto
  with Inl show ?thesis by simp
next
  case (Inr n)
  then show ?thesis using Atoi_signed_number [of p n] by simp
qed

lemma ParseSemver_accepted: "ParseSemver s = Inr v \<longleftrightarrow> accepted_version s = Some v"
proof (cases "\<exists>a b c. strings_Split s CHR ''.'' = [a, b, c]")
  case True
  then obtain a b c where h: "strings_Split s CHR ''.'' = [a, b, c]" by blast
  then have "s \<noteq> []" by auto
  with h show ?thesis
    by (auto simp: ParseSemver_def accepted_version_def Let_def signed_number_Atoi
          split: sum.splits)
next
  case False
  then have "length (strings_Split s CHR ''.'') \<noteq> 3"
    by (auto simp: length_Suc_conv numeral_3_eq_3)
  then have "ParseSemver s \<noteq> Inr v"
    by (auto simp: ParseSemver_def Let_def)
  moreover from False have "accepted_version s = None"
    by (auto simp: accepted_version_def split: list.splits)
  ultimately show ?thesis by simp
qed

lemma LessThan_older_accepted: "LessThan a b = older_accepted a b"
  unfolding LessThan_iff older_accepted_def ParseSemver_accepted
  by (auto split: option.splits)

lemma signed_number_plain:
  assumes "p = [] \<or> (hd p \<noteq> CHR ''+'' \<and> hd p \<noteq> CHR ''-'')"
    and "\<not> plain_number p \<or> number_of p < 2 ^ 63"
  shows "signed_number p = (if plain_number p then Some (number_of p) else None)"
  using assms by (cases p) (auto simp: signed_number_def plain_number_def)

lemma spec_version_split:
  "spec_version s =
     (case strings_Split s CHR ''.'' of
        [a, b, c] \<Rightarrow>
          if plain_number a \<and> plain_number b \<and> plain_number c
          then Some (number_of a, number_of b, number_of c) else None
      | parts \<Rightarrow> None)"
  by (auto simp: spec_version_def three_plain_numbers_def split: list.splits)

lemma accepted_is_spec:
  assumes "sign_free s" and "fits_64_bits s"
  shows "accepted_version s = spec_version s"
proof (cases "\<exists>a b c. strings_Split s CHR ''.'' = [a, b, c]")
  case True
  then obtain a b c where h: "strings_Split s CHR ''.'' = [a, b, c]" by blast
  with assms have
    "signed_number a = (if plain_number a then Some (number_of a) else None)"
    "signed_number b = (if plain_number b then Some (number_of b) else None)"
    "signed_number c = (if plain_number c then Some (number_of c) else None)"
    by (simp_all add: sign_free_def fits_64_bits_def signed_number_plain)
  with h show ?thesis
    by (simp add: accepted_version_def spec_version_split)
next
  case False
  then show ?thesis
    by (auto simp: accepted_version_def spec_version_split split: list.splits)
qed

lemma older_accepted_is_spec:
  assumes "sign_free a" "fits_64_bits a" "sign_free b" "fits_64_bits b"
  shows "older_accepted a b = older_than a b"
proof -
  from assms have "accepted_version a = spec_version a" "accepted_version b = spec_version b"
    by (simp_all add: accepted_is_spec)
  then show ?thesis unfolding older_accepted_def older_than_def by (simp split: option.splits)
qed

lemma plain_number_no_sign: "plain_number p \<Longrightarrow> hd p \<noteq> CHR ''+'' \<and> hd p \<noteq> CHR ''-''"
  by (cases p) (auto simp: plain_number_def dest: digit_not_sign)

lemma dotted_sign_free: "dotted_digits v \<Longrightarrow> sign_free v"
  by (auto simp: dotted_digits_def sign_free_def list_all_iff dest: plain_number_no_sign)

lemma empty_sign_free: "sign_free []"
  by (simp add: sign_free_def)

lemma SemverFromName_sign_free: "sign_free (SemverFromName f)"
  by (auto simp: SemverFromName_def Let_def version_body_dotted dotted_sign_free empty_sign_free)

lemma scan_workDir_sign_free: "sign_free (scan_workDir u fs wanted entries)"
  by (induction u fs wanted entries rule: scan_workDir.induct)
     (auto simp: empty_sign_free SemverFromName_sign_free split: sum.splits)

lemma GetLocalVersion_sign_free: "GetLocalVersion u fs = Inr loc \<Longrightarrow> sign_free loc"
  by (auto simp: GetLocalVersion_def empty_sign_free SemverFromName_sign_free
        scan_workDir_sign_free split: if_splits sum.splits)

lemma GetRemoteVersion_sign_free: "GetRemoteVersion env u w = (Inr remote, w1) \<Longrightarrow> sign_free remote"
  by (auto simp: GetRemoteVersion_def Let_def SemverFromName_sign_free split: sum.splits if_splits)

lemma GetRemoteVersion_world: "snd (GetRemoteVersion env u w) = send (HEAD (downloadURL u)) w"
  by (simp add: GetRemoteVersion_def Let_def split: sum.splits)

text \<open>
  C5, as the code has it.  When both versions are resolved, \<open>CheckForUpdates\<close> says
  that an update is needed exactly when the local version is unknown (empty) or
  older than the remote one, where \<open>LessThan\<close> is the order of the version model on
  the strings the parser accepts: three components, each an optional sign and a
  plain number within 64 bits.  It is false, and no error, as soon as one of the two
  strings is not accepted.  On strings none of whose components begins with a sign
  or is a plain number of \<open>2^63\<close> or more, \<open>LessThan\<close> is the specification's
  \<open>isOlderThan\<close>; the resolved versions never have a sign, so for them the decision
  is the specification's as soon as their components are below \<open>2^63\<close>.
\<close>

theorem CheckForUpdates_decision:
  assumes "GetRemoteVersion env u w = (Inr remote, w1)"
    and "GetLocalVersion u (files w1) = Inr loc"
  shows "CheckForUpdates env u w = (Inr (loc = [] \<or> older_accepted loc remote, remote), w1)
         \<and> (fits_64_bits loc \<and> fits_64_bits remote \<longrightarrow>
              CheckForUpdates env u w = (Inr (loc = [] \<or> older_than loc remote, remote), w1))
         \<and> LessThan a b = older_accepted a b
         \<and> (accepted_version a = None \<or> accepted_version b = None \<longrightarrow> LessThan a b = False)
         \<and> (sign_free a \<and> fits_64_bits a \<and> sign_free b \<and> fits_64_bits b \<longrightarrow>
              LessThan a b = older_than a b)"
proof -
  have c: "CheckForUpdates env u w = (Inr (loc = [] \<or> older_accepted loc remote, remote), w1)"
    using assms by (simp add: CheckForUpdates_def LessThan_older_accepted)
  have s: "sign_free loc" "sign_free remote"
    using assms GetLocalVersion_sign_free GetRemoteVersion_sign_free by blast+
  have d: "CheckForUpdates env u w = (Inr (loc = [] \<or> older_than loc remote, remote), w1)"
    if "fits_64_bits loc \<and> fits_64_bits remote"
    using c s that by (simp add: older_accepted_is_spec)
  have f: "LessThan a b = False" if "accepted_version a = None \<or> accepted_version b = None"
    using that by (auto simp: LessThan_older_accepted older_accepted_def split: option.splits)
  have g: "LessThan a b = older_than a b"
    if "sign_free a \<and> fits_64_bits a \<and> sign_free b \<and> fits_64_bits b"
    using that by (simp add: LessThan_older_accepted older_accepted_is_spec)
  from c d f g show ?thesis using LessThan_older_accepted by blast
qed

text \<open>
  The theorem where the current reference links to version 1.0.0 and the remote
  version is 1.4.5: an update is needed, by the specification's order.  And
  \<open>LessThan\<close> on a string that is not accepted, and on 1.4.5 and 1.10.0, where the
  order is by number and not by character.
\<close>

theorem CheckForUpdates_decision_witness:
  "GetRemoteVersion sample_env sample_updater (world_of fs_linked_old)
     = (Inr ''1.4.5'', send (HEAD (downloadURL sample_updater)) (world_of fs_linked_old))
   \<and> GetLocalVersion sample_updater fs_linked_old = Inr ''1.0.0''
   \<and> fits_64_bits ''1.0.0'' \<and> fits_64_bits ''1.4.5''
   \<and> older_than ''1.0.0'' ''1.4.5''
   \<and> CheckForUpdates sample_env sample_updater (world_of fs_linked_old)
     = (Inr (True, ''1.4.5''), send (HEAD (downloadURL sample_updater)) (world_of fs_linked_old))
   \<and> accepted_version ''1.x.0'' = None
   \<and> LessThan ''1.x.0'' ''1.4.5'' = False
   \<and> sign_free ''1.4.5'' \<and> sign_free ''1.10.0'' \<and> fits_64_bits ''1.10.0''
   \<and> older_than ''1.4.5'' ''1.10.0''
   \<and> LessThan ''1.4.5'' ''1.10.0''"
proof -
  let ?w1 = "send (HEAD (downloadURL sample_updater)) (world_of fs_linked_old)"
  have h1: "GetRemoteVersion sample_env sample_updater (world_of fs_linked_old) = (Inr ''1.4.5'', ?w1)"
    by code_simp
  have f: "files ?w1 = fs_linked_old" by code_simp
  have h2: "GetLocalVersion sample_updater (files ?w1) = Inr ''1.0.0''"
    unfolding f by code_simp
  have b1: "fits_64_bits ''1.0.0''" by code_simp
  have b2: "fits_64_bits ''1.4.5''" by code_simp
  have b3: "fits_64_bits ''1.10.0''" by code_simp
  have s2: "sign_free ''1.4.5''" by code_simp
  have s3: "sign_free ''1.10.0''" by code_simp
  have o1: "older_than ''1.0.0'' ''1.4.5''" by code_simp
  have o2: "older_than ''1.4.5'' ''1.10.0''" by code_simp
  have p: "accepted_version ''1.x.0'' = None" by code_simp
  note d1 = CheckForUpdates_decision [OF h1 h2, of "''1.x.0''" "''1.4.5''"]
  note d2 = CheckForUpdates_decision [OF h1 h2, of "''1.4.5''" "''1.10.0''"]
  from d1 b1 b2 have "CheckForUpdates sample_env sample_updater (world_of fs_linked_old)
            = (Inr (''1.0.0'' = [] \<or> older_than ''1.0.0'' ''1.4.5'', ''1.4.5''), ?w1)" by blast
  with o1 have c: "CheckForUpdates sample_env sample_updater (world_of fs_linked_old)
            = (Inr (True, ''1.4.5''), ?w1)" by simp
  from d1 p have l1: "LessThan ''1.x.0'' ''1.4.5'' = False" by blast
  from d2 s2 s3 b2 b3 have "LessThan ''1.4.5'' ''1.10.0'' = older_than ''1.4.5'' ''1.10.0''"
    by blast
  with o2 have l2: "LessThan ''1.4.5'' ''1.10.0''" by simp
  from h1 h2 b1 b2 b3 s2 s3 o1 o2 p c l1 l2 show ?thesis unfolding f by blast
qed

text \<open>
  C5 as the specification states it fails in both directions.  \<open>-1.0.0\<close> is no
  version of the version model, and \<open>LessThan\<close> finds it older than 0.0.0.  And
  with 1.0.0 installed and \<open>2^63.0.0\<close> the remote version, which is the newer one in
  the version model, \<open>CheckForUpdates\<close> says that no update is needed.
\<close>

theorem CheckForUpdates_signed_and_large_counterexample:
  "LessThan ''-1.0.0'' ''0.0.0''
   \<and> spec_version ''-1.0.0'' = None
   \<and> spec_version ''0.0.0'' = Some (0, 0, 0)
   \<and> GetLocalVersion sample_updater fs_linked_old = Inr ''1.0.0''
   \<and> CheckForUpdates env_large_remote sample_updater (world_of fs_linked_old)
       = (Inr (False, ''9223372036854775808.0.0''),
          send (HEAD (downloadURL sample_updater)) (world_of fs_linked_old))
   \<and> older_than ''1.0.0'' ''9223372036854775808.0.0''"
  by code_simp

section \<open>The local version\<close>

lemma GetLocalVersion_absent:
  "os_Stat fs (launchLink u) = Inl ENOENT \<Longrightarrow> GetLocalVersion u fs = Inr []"
  by (simp add: GetLocalVersion_def)

lemma GetLocalVersion_symlink:
  "os_Stat fs (launchLink u) \<noteq> Inl ENOENT \<Longrightarrow> os_Readlink fs (launchLink u) = Inr target
     \<Longrightarrow> GetLocalVersion u fs = Inr (SemverFromName (filepath_Base target))"
  by (simp add: GetLocalVersion_def)

lemma GetLocalVersion_regular:
  "os_Readlink fs (launchLink u) = Inl e \<Longrightarrow> os_Stat fs (launchLink u) = Inr st
     \<Longrightarrow> os_ReadDir fs (workDir u) = Inr entries
     \<Longrightarrow> GetLocalVersion u fs = Inr (scan_workDir u fs (FileInfo_Size st) entries)"
  by (simp add: GetLocalVersion_def)

text \<open>
  The first step asks \<open>os.Stat\<close>, which follows a link: a current reference that is a
  link to a file that is gone counts as absent, and the name of its target is not
  looked at.
\<close>

lemma GetLocalVersion_dangling_link:
  "os_Readlink (AList.delete ''/w/Cursor-1.0.0-x86_64.AppImage'' fs_linked_old)
       (launchLink sample_updater) = Inr ''Cursor-1.0.0-x86_64.AppImage''
   \<and> GetLocalVersion sample_updater
         (AList.delete ''/w/Cursor-1.0.0-x86_64.AppImage'' fs_linked_old) = Inr []"
  by code_simp

text \<open>
  C2: the first step is as the claim says, and the second when the target of the
  link exists (the lemmas above); the scan of the third step is not.  With a
  configuration the loop takes every name that holds
  a dot for a candidate, and it returns at the first candidate of the right size
  whatever its name yields.  Here the current reference is a copy of the artifact
  of version 1.0.0 and \<open>Backup.AppImage\<close> is another copy: the listing has it first,
  so the result is unknown, although the artifact is found once the backup is gone.
\<close>

theorem GetLocalVersion_stops_at_first_size_match:
  "GetLocalVersion sample_updater fs_copy = Inr []
   \<and> GetLocalVersion sample_updater (AList.delete ''/w/Backup.AppImage'' fs_copy) = Inr ''1.0.0''"
  by code_simp

section \<open>The latest entry of the ledger\<close>

lemma first_latest_snoc:
  assumes "first_latest pre k"
  shows "first_latest (pre @ [x]) (if Timestamp (pre ! k) < Timestamp x then length pre else k)"
proof (cases "Timestamp (pre ! k) < Timestamp x")
  case True
  have "Timestamp ((pre @ [x]) ! j) \<le> Timestamp x" if "j < Suc (length pre)" for j
  proof (cases "j < length pre")
    case True
    with assms have "Timestamp (pre ! j) \<le> Timestamp (pre ! k)" by (simp add: first_latest_def)
    with \<open>Timestamp (pre ! k) < Timestamp x\<close> True show ?thesis by (simp add: nth_append)
  next
    case False
    with that have "j = length pre" by simp
    then show ?thesis by simp
  qed
  moreover have "Timestamp ((pre @ [x]) ! j) < Timestamp x" if "j < length pre" for j
  proof -
    from assms that have "Timestamp (pre ! j) \<le> Timestamp (pre ! k)" by (simp add: first_latest_def)
    with True that show ?thesis by (simp add: nth_append)
  qed
  ultimately show ?thesis using True by (simp add: first_latest_def)
next
  case False
  from assms have k: "k < length pre" by (simp add: first_latest_def)
  have "Timestamp ((pre @ [x]) ! j) \<le> Timestamp (pre ! k)" if "j < Suc (length pre)" for j
  proof (cases "j < length pre")
    case True
    with assms show ?thesis by (simp add: first_latest_def nth_append)
  next
    case F: False
    with that have "j = length pre" by simp
    with False show ?thesis by simp
  qed
  moreover have "Timestamp ((pre @ [x]) ! j) < Timestamp (pre ! k)" if "j < k" for j
    using assms that k by (simp add: first_latest_def nth_append)
  ultimately show ?thesis using False k by (simp add: first_latest_def nth_append)
qed

lemma latest_loop_first_latest:
  assumes "first_latest pre k"
  shows "\<exists>i. first_latest (pre @ es) i \<and> latest_loop (pre ! k) es = (pre @ es) ! i"
  using assms
proof (induction es arbitrary: pre k)
  case Nil
  then show ?case by auto
next
  case (Cons x xs)
  let ?k = "if Timestamp (pre ! k) < Timestamp x then length pre else k"
  from Cons.prems have k: "k < length pre" by (simp add: first_latest_def)
  have fl: "first_latest (pre @ [x]) ?k" by (rule first_latest_snoc [OF Cons.prems])
  have nth: "(pre @ [x]) ! ?k = (if Timestamp (pre ! k) < Timestamp x then x else pre ! k)"
    using k by (simp add: nth_append)
  from Cons.IH [OF fl] obtain i where
    i: "first_latest ((pre @ [x]) @ xs) i" "latest_loop ((pre @ [x]) ! ?k) xs = ((pre @ [x]) @ xs) ! i"
    by blast
  have "latest_loop (pre ! k) (x # xs) = latest_loop ((pre @ [x]) ! ?k) xs"
    unfolding nth by simp
  with i show ?case by auto
qed

text \<open>
  C10.  On a ledger with at least one readable entry \<open>GetLatestVersion\<close> returns an
  entry of the greatest timestamp, and the first such entry of the file.
\<close>

theorem GetLatestVersion_first_latest:
  assumes "Ledger_ReadAll env path fs = Inr entries" and "entries \<noteq> []"
  shows "\<exists>i. first_latest entries i \<and> Ledger_GetLatestVersion env path fs = Inr (entries ! i)"
proof -
  from assms(2) obtain e es where es: "entries = e # es" by (cases entries) auto
  have "first_latest [e] 0" by (simp add: first_latest_def)
  from latest_loop_first_latest [OF this, of es]
  obtain i where "first_latest (e # es) i" "latest_loop e es = (e # es) ! i" by auto
  with assms(1) es show ?thesis
    by (auto simp: Ledger_GetLatestVersion_def)
qed

text \<open>
  The theorem on a ledger whose second and third entries share the latest timestamp:
  the second is returned.
\<close>

theorem GetLatestVersion_first_latest_witness:
  "Ledger_ReadAll sample_env ''/w/ledger.log'' fs_ledger
     = Inr [ledger_entry 1704110400 ''1.0.0'' ''a'' ''update'',
            ledger_entry 1704196800 ''1.1.0'' ''b'' ''update'',
            ledger_entry 1704196800 ''1.0.0'' ''a'' ''switch'']
   \<and> Ledger_GetLatestVersion sample_env ''/w/ledger.log'' fs_ledger
     = Inr (ledger_entry 1704196800 ''1.1.0'' ''b'' ''update'')
   \<and> (\<exists>i. first_latest [ledger_entry 1704110400 ''1.0.0'' ''a'' ''update'',
            ledger_entry 1704196800 ''1.1.0'' ''b'' ''update'',
            ledger_entry 1704196800 ''1.0.0'' ''a'' ''switch''] i
        \<and> Ledger_GetLatestVersion sample_env ''/w/ledger.log'' fs_ledger
          = Inr ([ledger_entry 1704110400 ''1.0.0'' ''a'' ''update'',
            ledger_entry 1704196800 ''1.1.0'' ''b'' ''update'',
            ledger_entry 1704196800 ''1.0.0'' ''a'' ''switch''] ! i))"
proof -
  let ?es = "[ledger_entry 1704110400 ''1.0.0'' ''a'' ''update'',
            ledger_entry 1704196800 ''1.1.0'' ''b'' ''update'',
            ledger_entry 1704196800 ''1.0.0'' ''a'' ''switch'']"
  have r: "Ledger_ReadAll sample_env ''/w/ledger.log'' fs_ledger = Inr ?es" by code_simp
  have g: "Ledger_GetLatestVersion sample_env ''/w/ledger.log'' fs_ledger
     = Inr (ledger_entry 1704196800 ''1.1.0'' ''b'' ''update'')" by code_simp
  have ne: "?es \<noteq> []" by simp
  from GetLatestVersion_first_latest [OF r ne] r g show ?thesis by blast
qed

section \<open>The actions\<close>

lemma CheckForUpdates_world:
  "snd (CheckForUpdates env u w) = send (HEAD (downloadURL u)) w"
  using GetRemoteVersion_world [of env u w]
  by (auto simp: CheckForUpdates_def split: prod.splits sum.splits)

lemma updateVersionFile_frame:
  "requests (updateVersionFile v cfg w) = requests w"
  "stdout (updateVersionFile v cfg w) = stdout w"
  "set (stderr w) \<subseteq> set (stderr (updateVersionFile v cfg w))"
  by (auto simp: updateVersionFile_def warn_def split: prod.splits option.splits)

lemma log_and_finish_result:
  "fst (log_and_finish env led cfg entry warning final w) = None"
  "stdout (snd (log_and_finish env led cfg entry warning final w)) = stdout w @ [final]"
  by (auto simp: log_and_finish_def Let_def say_def warn_def updateVersionFile_frame
      split: prod.splits option.splits)

lemma log_and_finish_warning:
  assumes "fst (Ledger_Append env led entry (files w)) = Some e"
  shows "warning e \<in> set (stderr (snd (log_and_finish env led cfg entry warning final w)))"
proof -
  obtain fs1 where a: "Ledger_Append env led entry (files w) = (Some e, fs1)"
    using assms by (cases "Ledger_Append env led entry (files w)") auto
  have "warning e \<in> set (stderr (warn (warning e) (w\<lparr>files := fs1\<rparr>)))"
    by (simp add: warn_def)
  with updateVersionFile_frame(3) [of "warn (warning e) (w\<lparr>files := fs1\<rparr>)" "Version entry" cfg]
  show ?thesis
    using a by (auto simp: log_and_finish_def Let_def say_def)
qed

lemma download_and_switch_stdout:
  assumes "download_and_switch env up led cfg remote action final w = (None, w')"
  shows "stdout w' \<noteq> [] \<and> last (stdout w') = final"
proof -
  from assms obtain entry w2 where
    "log_and_finish env led cfg entry WarnLogUpdate final w2 = (None, w')"
    by (auto simp: download_and_switch_def Let_def split: prod.splits sum.splits option.splits)
  then have "stdout w' = stdout w2 @ [final]"
    using log_and_finish_result(2) [of env led cfg entry WarnLogUpdate final w2] by simp
  then show ?thesis by simp
qed

text \<open>
  C6.  When the decision is that no update is needed, the update action returns
  without error, leaves the file system (artifacts, current reference, ledger) and
  the standard error as they were, sends the one HEAD request of the check and no
  GET, and prints the line "already up to date".  A run that carries an update out
  ends with the line "updated to" instead.
\<close>

theorem executeUpdate_already_current:
  assumes "CheckForUpdates env up w = (Inr (needs, remote), w1)"
    and "executeUpdate env up led cfg w = (r, w')"
  shows "(\<not> needs \<longrightarrow>
            r = None \<and> files w' = files w \<and> stderr w' = stderr w
            \<and> requests w' = requests w @ [HEAD (downloadURL up)]
            \<and> (\<exists>loc. stdout w' = stdout w @ [AlreadyUpToDate loc]))
         \<and> (needs \<and> r = None \<longrightarrow> stdout w' \<noteq> [] \<and> last (stdout w') = UpdatedTo remote)"
proof (cases needs)
  case False
  from assms(1) CheckForUpdates_world [of env up w]
  have w1: "w1 = send (HEAD (downloadURL up)) w" by simp
  from assms False
  have "r = None" and "\<exists>loc. w' = say (AlreadyUpToDate loc) w1"
    by (auto simp: executeUpdate_def Let_def)
  with w1 False show ?thesis by (auto simp: say_def send_def)
next
  case True
  with assms obtain w3 where
    "download_and_switch env up led cfg remote ''update'' (UpdatedTo remote) w3 = (r, w')"
    by (auto simp: executeUpdate_def Let_def)
  with download_and_switch_stdout True show ?thesis by blast
qed

text \<open>The theorem where the current reference links to the remote version 1.4.5.\<close>

theorem executeUpdate_already_current_witness:
  "CheckForUpdates sample_env sample_updater (world_of fs_linked_current)
     = (Inr (False, ''1.4.5''), send (HEAD (downloadURL sample_updater)) (world_of fs_linked_current))
   \<and> executeUpdate sample_env sample_updater ''/w/ledger.log'' sample_config (world_of fs_linked_current)
     = (None, \<lparr> files = fs_linked_current,
                requests = [HEAD (downloadURL sample_updater)],
                stdout = [AlreadyUpToDate ''1.4.5''], stderr = [] \<rparr>)
   \<and> files (snd (executeUpdate sample_env sample_updater ''/w/ledger.log'' sample_config
        (world_of fs_linked_current))) = files (world_of fs_linked_current)"
proof -
  let ?w = "world_of fs_linked_current"
  let ?w' = "\<lparr> files = fs_linked_current, requests = [HEAD (downloadURL sample_updater)],
                stdout = [AlreadyUpToDate ''1.4.5''], stderr = [] \<rparr>"
  have c: "CheckForUpdates sample_env sample_updater ?w
     = (Inr (False, ''1.4.5''), send (HEAD (downloadURL sample_updater)) ?w)"
    by code_simp
  have x: "executeUpdate sample_env sample_updater ''/w/ledger.log'' sample_config ?w = (None, ?w')"
    by code_simp
  from executeUpdate_already_current [OF c x] c x show ?thesis by simp
qed

lemma download_and_switch_append_not_fatal:
  assumes "DownloadCursor env up w = (Inr filename, w2)"
    and "CalculateSHA256 env (files w2) (filepath_Join (workDir up) filename) = Inr sha"
    and "SwitchToVersion up remote (files w2) = (None, fs3)"
  shows "fst (download_and_switch env up led cfg remote action final w) = None
         \<and> (\<forall>e. fst (Ledger_Append env led
                     \<lparr> Timestamp = time_Now env, Version = remote, InternalID = [],
                       Filename = filename, SHA256 = sha, Action = action \<rparr> fs3) = Some e
               \<longrightarrow> WarnLogUpdate e
                     \<in> set (stderr (snd (download_and_switch env up led cfg remote action final w))))"
proof -
  let ?entry = "\<lparr> Timestamp = time_Now env, Version = remote, InternalID = [],
                       Filename = filename, SHA256 = sha, Action = action \<rparr>"
  let ?w3 = "(say BlankLine w2)\<lparr>files := fs3\<rparr>"
  have f: "files (say BlankLine w2) = files w2" by (simp add: say_def)
  have d: "download_and_switch env up led cfg remote action final w
             = log_and_finish env led cfg ?entry WarnLogUpdate final ?w3"
    using assms by (simp add: download_and_switch_def Let_def f)
  have f3: "files ?w3 = fs3" by simp
  show ?thesis
    unfolding d using log_and_finish_result(1) [of env led cfg ?entry WarnLogUpdate final ?w3]
      log_and_finish_warning [where env = env and led = led and entry = "?entry" and w = "?w3"
        and cfg = cfg and warning = WarnLogUpdate and final = final]
    unfolding f3 by blast
qed

text \<open>
  C9.  Once the update action has downloaded the artifact, computed its digest and
  switched the current reference, it returns no error whatever \<open>Append\<close> returns; a
  failure of \<open>Append\<close> is a warning on the standard error.
\<close>

theorem executeUpdate_append_failure_not_fatal:
  assumes "CheckForUpdates env up w = (Inr (True, remote), w1)"
    and "DownloadCursor env up
           (if test_mode env then say TestModeDownload (say (DownloadingCursor remote) w1)
            else say (DownloadingCursor remote) w1) = (Inr filename, w2)"
    and "CalculateSHA256 env (files w2) (filepath_Join (workDir up) filename) = Inr sha"
    and "SwitchToVersion up remote (files w2) = (None, fs3)"
  shows "fst (executeUpdate env up led cfg w) = None
         \<and> (\<forall>e. fst (Ledger_Append env led
                     \<lparr> Timestamp = time_Now env, Version = remote, InternalID = [],
                       Filename = filename, SHA256 = sha, Action = ''update'' \<rparr> fs3) = Some e
               \<longrightarrow> WarnLogUpdate e \<in> set (stderr (snd (executeUpdate env up led cfg w))))"
proof -
  let ?w3 = "if test_mode env then say TestModeDownload (say (DownloadingCursor remote) w1)
            else say (DownloadingCursor remote) w1"
  have "executeUpdate env up led cfg w
          = download_and_switch env up led cfg remote ''update'' (UpdatedTo remote) ?w3"
    using assms(1) by (simp add: executeUpdate_def Let_def)
  with download_and_switch_append_not_fatal [OF assms(2,3,4), of led cfg "''update''" "UpdatedTo remote"]
  show ?thesis by simp
qed

text \<open>
  The theorem where the ledger path is a directory: the artifact is downloaded, the
  link is made, \<open>Append\<close> cannot open the ledger, and the action succeeds.
\<close>

theorem executeUpdate_append_failure_not_fatal_witness:
  "CheckForUpdates sample_env sample_updater (world_of fs_ledger_blocked)
     = (Inr (True, ''1.4.5''), send (HEAD (downloadURL sample_updater)) (world_of fs_ledger_blocked))
   \<and> fst (Ledger_Append sample_env ''/w/ledger.log''
           \<lparr> Timestamp = 1704196800, Version = ''1.4.5'', InternalID = [],
             Filename = ''Cursor-1.4.5-x86_64.AppImage'', SHA256 = ''e3b0c44298fc1c14'',
             Action = ''update'' \<rparr>
           [(''/w'', Directory), (''/w/ledger.log'', Directory),
            (''/w/Cursor-1.4.5-x86_64.AppImage'', Regular ''image''),
            (''/w/Cursor.AppImage'', Symlink ''Cursor-1.4.5-x86_64.AppImage'')])
       = Some (OpenLedgerFailed EISDIR)
   \<and> fst (executeUpdate sample_env sample_updater ''/w/ledger.log'' sample_config
           (world_of fs_ledger_blocked)) = None
   \<and> WarnLogUpdate (OpenLedgerFailed EISDIR)
       \<in> set (stderr (snd (executeUpdate sample_env sample_updater ''/w/ledger.log'' sample_config
           (world_of fs_ledger_blocked))))"
proof -
  let ?w = "world_of fs_ledger_blocked"
  let ?w1 = "send (HEAD (downloadURL sample_updater)) ?w"
  let ?fs2 = "[(''/w'', Directory), (''/w/ledger.log'', Directory),
            (''/w/Cursor-1.4.5-x86_64.AppImage'', Regular ''image'')]"
  let ?fs3 = "[(''/w'', Directory), (''/w/ledger.log'', Directory),
            (''/w/Cursor-1.4.5-x86_64.AppImage'', Regular ''image''),
            (''/w/Cursor.AppImage'', Symlink ''Cursor-1.4.5-x86_64.AppImage'')]"
  let ?w2 = "\<lparr> files = ?fs2,
               requests = [HEAD (downloadURL sample_updater), HEAD (downloadURL sample_updater),
                           GET (downloadURL sample_updater)],
               stdout = [DownloadingCursor ''1.4.5''], stderr = [] \<rparr>"
  have c: "CheckForUpdates sample_env sample_updater ?w = (Inr (True, ''1.4.5''), ?w1)"
    by code_simp
  have d: "DownloadCursor sample_env sample_updater
             (if test_mode sample_env then say TestModeDownload (say (DownloadingCursor ''1.4.5'') ?w1)
              else say (DownloadingCursor ''1.4.5'') ?w1)
           = (Inr ''Cursor-1.4.5-x86_64.AppImage'', ?w2)"
    by code_simp
  have s: "CalculateSHA256 sample_env (files ?w2)
             (filepath_Join (workDir sample_updater) ''Cursor-1.4.5-x86_64.AppImage'')
           = Inr ''e3b0c44298fc1c14''"
    by code_simp
  have sw: "SwitchToVersion sample_updater ''1.4.5'' (files ?w2) = (None, ?fs3)"
    by code_simp
  have n: "time_Now sample_env = 1704196800" by code_simp
  have a: "fst (Ledger_Append sample_env ''/w/ledger.log''
           \<lparr> Timestamp = 1704196800, Version = ''1.4.5'', InternalID = [],
             Filename = ''Cursor-1.4.5-x86_64.AppImage'', SHA256 = ''e3b0c44298fc1c14'',
             Action = ''update'' \<rparr> ?fs3) = Some (OpenLedgerFailed EISDIR)"
    by code_simp
  from executeUpdate_append_failure_not_fatal [OF c d s sw, of "''/w/ledger.log''" sample_config]
    c a show ?thesis unfolding n by blast
qed

section \<open>The switch action\<close>

lemma dotted_digits_not_empty: "dotted_digits v \<Longrightarrow> v \<noteq> []"
  by (auto simp: dotted_digits_def plain_number_def)

lemma HasPrefix_append: "strings_HasPrefix (a @ b) a"
  by (simp add: strings_HasPrefix_def)

lemma HasSuffix_append: "strings_HasSuffix (a @ b) b"
  by (simp add: strings_HasSuffix_def)

lemma middle_of_append:
  "take (length (a @ v @ b) - length a - length b) (drop (length a) (a @ v @ b)) = v"
  by simp

lemma SemverFromName_default_name:
  "SemverFromName (''Cursor-'' @ v @ ''-x86_64.AppImage'') = (if dotted_digits v then v else [])"
proof -
  let ?pre = "''Cursor-''" and ?suf = "''-x86_64.AppImage''"
  let ?fn = "?pre @ v @ ?suf"
  have ne: "?fn \<noteq> []" by simp
  have p: "strings_HasPrefix ?fn ?pre" by (rule HasPrefix_append)
  have "strings_HasSuffix ((?pre @ v) @ ?suf) ?suf" by (rule HasSuffix_append)
  then have s: "strings_HasSuffix ?fn ?suf" by (simp only: append_assoc)
  have l: "length ?pre + length ?suf \<le> length ?fn" by simp
  have g: "take (length ?fn - length ?pre - length ?suf) (drop (length ?pre) ?fn) = v"
    by (rule middle_of_append)
  have "SemverFromName ?fn = (if version_body False v then v else [])"
    unfolding SemverFromName_def Let_def g using ne p s l by (simp only: if_True if_False simp_thms)
  then show ?thesis unfolding version_body_dotted .
qed

text \<open>
  C4, as the code has it.  The switch action checks the version with the pattern of
  the file names, so it goes on exactly for one or more plain numbers separated by
  dots (three components are not required).  It fails unless the version has that
  shape and the artifact named for it is not missing.  A version of another shape
  fails with the invalid-format error; a version of that shape whose artifact is
  missing fails with the version-not-found error.  In both cases the world is
  unchanged: no ledger entry, the same current reference.
\<close>

theorem executeSwitch_requires_artifact:
  "(fst (executeSwitch env up led v cfg w) = None \<longrightarrow>
      dotted_digits v
      \<and> os_Stat (files w) (getDownloadPath up (GenerateFileName up v)) \<noteq> Inl ENOENT)
   \<and> (\<not> dotted_digits v \<longrightarrow>
        executeSwitch env up led v cfg w = (Some (InvalidVersionFormat v), w))
   \<and> (dotted_digits v
        \<and> os_Stat (files w) (getDownloadPath up (GenerateFileName up v)) = Inl ENOENT \<longrightarrow>
        executeSwitch env up led v cfg w
          = (Some (ErrorSwitching (VersionFileNotFound (GenerateFileName up v))), w))"
proof (cases "dotted_digits v")
  case False
  then have "executeSwitch env up led v cfg w = (Some (InvalidVersionFormat v), w)"
    unfolding executeSwitch_def SemverFromName_default_name by simp
  with False show ?thesis by simp
next
  case True
  then have v: "SemverFromName (''Cursor-'' @ v @ ''-x86_64.AppImage'') \<noteq> []"
    unfolding SemverFromName_default_name by (simp add: dotted_digits_not_empty)
  show ?thesis
  proof (cases "os_Stat (files w) (getDownloadPath up (GenerateFileName up v)) = Inl ENOENT")
    case absent: True
    then have "SwitchToVersion up v (files w)
                 = (Some (VersionFileNotFound (GenerateFileName up v)), files w)"
      by (simp add: SwitchToVersion_def Let_def)
    with v have "executeSwitch env up led v cfg w
          = (Some (ErrorSwitching (VersionFileNotFound (GenerateFileName up v))), w)"
      unfolding executeSwitch_def by (simp only: if_False prod.case option.case) simp
    with True absent show ?thesis by simp
  next
    case False
    with True show ?thesis by simp
  qed
qed

text \<open>The theorem at \<open>9.9.9\<close>, which has no artifact, and at \<open>1..2\<close>.\<close>

theorem executeSwitch_requires_artifact_witness:
  "dotted_digits ''9.9.9''
   \<and> os_Stat (files (world_of fs_linked_old))
         (getDownloadPath sample_updater (GenerateFileName sample_updater ''9.9.9'')) = Inl ENOENT
   \<and> executeSwitch sample_env sample_updater ''/w/ledger.log'' ''9.9.9'' sample_config
         (world_of fs_linked_old)
       = (Some (ErrorSwitching (VersionFileNotFound ''Cursor-9.9.9-x86_64.AppImage'')),
          world_of fs_linked_old)
   \<and> \<not> dotted_digits ''1..2''
   \<and> executeSwitch sample_env sample_updater ''/w/ledger.log'' ''1..2'' sample_config
         (world_of fs_linked_old)
       = (Some (InvalidVersionFormat ''1..2''), world_of fs_linked_old)"
proof -
  have d: "dotted_digits ''9.9.9''" by code_simp
  have a: "os_Stat (files (world_of fs_linked_old))
         (getDownloadPath sample_updater (GenerateFileName sample_updater ''9.9.9'')) = Inl ENOENT"
    by code_simp
  have g: "GenerateFileName sample_updater ''9.9.9'' = ''Cursor-9.9.9-x86_64.AppImage''"
    by code_simp
  have n: "\<not> dotted_digits ''1..2''" by code_simp
  note t1 = executeSwitch_requires_artifact [of sample_env sample_updater "''/w/ledger.log''"
      "''9.9.9''" sample_config "world_of fs_linked_old"]
  note t2 = executeSwitch_requires_artifact [of sample_env sample_updater "''/w/ledger.log''"
      "''1..2''" sample_config "world_of fs_linked_old"]
  from t1 d a have "executeSwitch sample_env sample_updater ''/w/ledger.log'' ''9.9.9'' sample_config
         (world_of fs_linked_old)
       = (Some (ErrorSwitching (VersionFileNotFound (GenerateFileName sample_updater ''9.9.9''))),
          world_of fs_linked_old)" by blast
  moreover from t2 n have "executeSwitch sample_env sample_updater ''/w/ledger.log'' ''1..2''
         sample_config (world_of fs_linked_old)
       = (Some (InvalidVersionFormat ''1..2''), world_of fs_linked_old)" by blast
  ultimately show ?thesis using d a n unfolding g by blast
qed

text \<open>
  C4 as the specification states it fails: \<open>1.4\<close> does not parse as a version, and
  the switch to it succeeds when its artifact exists; \<open>abc\<close> has no artifact, and
  the switch to it fails with the invalid-format error, not with version-not-found.
\<close>

theorem executeSwitch_two_components_counterexample:
  "ParseSemver ''1.4'' = Inl (WrongPartCount 2)
   \<and> os_Stat fs_two_components ''/w/Cursor-1.4-x86_64.AppImage'' = Inr (Regular ''abcd'')
   \<and> fst (executeSwitch sample_env sample_updater ''/w/ledger.log'' ''1.4'' sample_config
            (world_of fs_two_components)) = None
   \<and> os_Readlink (files (snd (executeSwitch sample_env sample_updater ''/w/ledger.log'' ''1.4''
            sample_config (world_of fs_two_components)))) ''/w/Cursor.AppImage''
       = Inr ''Cursor-1.4-x86_64.AppImage''
   \<and> os_Stat fs_two_components ''/w/Cursor-abc-x86_64.AppImage'' = Inl ENOENT
   \<and> executeSwitch sample_env sample_updater ''/w/ledger.log'' ''abc'' sample_config
         (world_of fs_two_components)
       = (Some (InvalidVersionFormat ''abc''), world_of fs_two_components)"
  by code_simp

section \<open>Reading the ledger\<close>

lemma scanner_tokens_short:
  "\<forall>l \<in> set ls. int (length l) < MaxScanTokenSize \<Longrightarrow> scanner_tokens ls = (map dropCR ls, False)"
  by (induction ls) auto

lemma scanner_tokens_long:
  "\<exists>l \<in> set ls. MaxScanTokenSize \<le> int (length l) \<Longrightarrow> snd (scanner_tokens ls) = True"
proof (induction ls)
  case Nil
  then show ?case by simp
next
  case (Cons a ls)
  show ?case
  proof (cases "MaxScanTokenSize \<le> int (length a)")
    case True
    then show ?thesis by simp
  next
    case False
    with Cons.prems have "\<exists>l \<in> set ls. MaxScanTokenSize \<le> int (length l)" by auto
    from Cons.IH [OF this] False show ?thesis
      by (cases "scanner_tokens ls") auto
  qed
qed

lemma parseEntry_well_formed:
  "well_formed_line env l \<Longrightarrow> parseEntry env l = Inr (line_entry env l)"
  by (auto simp: well_formed_line_def parseEntry_def line_entry_def Let_def
      hd_conv_nth [OF Split_not_Nil] split: option.splits)

lemma parseEntry_malformed:
  "\<not> well_formed_line env l \<Longrightarrow> \<exists>e. parseEntry env l = Inl e"
  by (auto simp: well_formed_line_def parseEntry_def Let_def hd_conv_nth [OF Split_not_Nil]
      split: option.splits)

lemma empty_line_malformed: "\<not> well_formed_line env []"
  by (simp add: well_formed_line_def)

lemma read_loop_eq:
  "read_loop env toks acc
     = acc @ map (line_entry env) (filter (well_formed_line env) (map strings_TrimSpace toks))"
proof (induction toks arbitrary: acc)
  case Nil
  then show ?case by simp
next
  case (Cons tok toks)
  show ?case
  proof (cases "well_formed_line env (strings_TrimSpace tok)")
    case True
    then have "strings_TrimSpace tok \<noteq> []" using empty_line_malformed by metis
    with True Cons.IH show ?thesis
      by (simp add: Let_def parseEntry_well_formed)
  next
    case False
    from parseEntry_malformed [OF False] obtain e where
      "parseEntry env (strings_TrimSpace tok) = Inl e" ..
    with False Cons.IH show ?thesis by (simp add: Let_def)
  qed
qed

lemma ReadAll_absent: "os_Stat fs path = Inl ENOENT \<Longrightarrow> Ledger_ReadAll env path fs = Inr []"
  by (simp add: Ledger_ReadAll_def)

lemma ReadAll_short_lines:
  assumes "os_Stat fs path = Inr (Regular content)"
    and "\<forall>l \<in> set (raw_lines content). int (length l) < MaxScanTokenSize"
  shows "Ledger_ReadAll env path fs
           = Inr (map (line_entry env) (filter (well_formed_line env)
                   (map (\<lambda>l. strings_TrimSpace (dropCR l)) (raw_lines content))))"
  using assms(1) scanner_tokens_short [OF assms(2)]
  by (simp add: Ledger_ReadAll_def os_Open_def read_loop_eq comp_def)

lemma ReadAll_too_long:
  assumes "os_Stat fs path = Inr (Regular content)"
    and "\<exists>l \<in> set (raw_lines content). MaxScanTokenSize \<le> int (length l)"
  shows "Ledger_ReadAll env path fs = Inl (ReadLedgerFailed ErrTooLong)"
  using assms(1) scanner_tokens_long [OF assms(2)]
  by (auto simp: Ledger_ReadAll_def os_Open_def Let_def split: prod.splits)

text \<open>
  C7, as the code has it.  \<open>ReadAll\<close> returns no entry and no error when the ledger
  does not exist.  When every line of the ledger is shorter than 65536 bytes, each
  line is judged after its white space is trimmed at both ends: the lines that are
  not well formed then are skipped, and the others are returned as entries, in the
  order of the file.  A line of 65536 bytes or more makes \<open>ReadAll\<close> fail.
\<close>

theorem ReadAll_skips_malformed_lines:
  "(os_Stat fs path = Inl ENOENT \<longrightarrow> Ledger_ReadAll env path fs = Inr [])
   \<and> (os_Stat fs path = Inr (Regular content)
        \<and> (\<forall>l \<in> set (raw_lines content). int (length l) < MaxScanTokenSize) \<longrightarrow>
      Ledger_ReadAll env path fs
        = Inr (map (line_entry env) (filter (well_formed_line env)
                (map (\<lambda>l. strings_TrimSpace (dropCR l)) (raw_lines content)))))
   \<and> (os_Stat fs path = Inr (Regular content)
        \<and> (\<exists>l \<in> set (raw_lines content). MaxScanTokenSize \<le> int (length l)) \<longrightarrow>
      Ledger_ReadAll env path fs = Inl (ReadLedgerFailed ErrTooLong))"
  using ReadAll_absent ReadAll_short_lines ReadAll_too_long by blast

lemma follow_plain:
  assumes "fs_lookup fs p = Some n" and "\<And>t. n \<noteq> Symlink t"
  shows "follow (Suc k) fs p = Inr (filepath_Clean p, Some n)"
  using assms by (cases n) auto

lemma os_Stat_plain:
  assumes "fs_lookup fs p = Some n" and "\<And>t. n \<noteq> Symlink t"
  shows "os_Stat fs p = Inr n"
proof -
  have e: "(40::nat) = Suc 39" by simp
  show ?thesis
    unfolding os_Stat_def e follow_plain [OF assms] by simp
qed

lemma follow_absent:
  assumes "fs_lookup fs p = None"
  shows "follow (Suc k) fs p = Inr (filepath_Clean p, None)"
  using assms by simp

lemma os_Stat_absent:
  assumes "fs_lookup fs p = None"
  shows "os_Stat fs p = Inl ENOENT"
proof -
  have e: "(40::nat) = Suc 39" by simp
  show ?thesis
    unfolding os_Stat_def e follow_absent [OF assms] by simp
qed

lemma os_Stat_fs_with_ledger:
  "os_Stat (fs_with_ledger content) ''/w/ledger.log'' = Inr (Regular content)"
proof -
  have c: "filepath_Clean ''/w/ledger.log'' = ''/w/ledger.log''" by code_simp
  have "fs_lookup (fs_with_ledger content) ''/w/ledger.log'' = Some (Regular content)"
    unfolding fs_lookup_def c by (simp add: fs_with_ledger_def)
  then show ?thesis by (rule os_Stat_plain) simp
qed

text \<open>
  The theorem on a missing ledger, and on a ledger of five lines: junk, a good line
  that ends with a carriage return, a line of two fields, an empty line, and the
  good line again after a space and without a line feed.
\<close>

theorem ReadAll_skips_malformed_lines_witness:
  "os_Stat [] ''/w/ledger.log'' = Inl ENOENT
   \<and> Ledger_ReadAll sample_env ''/w/ledger.log'' [] = Inr []
   \<and> os_Stat (fs_with_ledger (''junk'' @ [CHR 0x0A] @ good_line @ [CHR 0x0D, CHR 0x0A]
                @ [CHR 0x09] @ ''a'' @ [CHR 0x0A, CHR 0x0A, CHR 0x20] @ good_line)) ''/w/ledger.log''
       = Inr (Regular (''junk'' @ [CHR 0x0A] @ good_line @ [CHR 0x0D, CHR 0x0A]
                @ [CHR 0x09] @ ''a'' @ [CHR 0x0A, CHR 0x0A, CHR 0x20] @ good_line))
   \<and> Ledger_ReadAll sample_env ''/w/ledger.log''
         (fs_with_ledger (''junk'' @ [CHR 0x0A] @ good_line @ [CHR 0x0D, CHR 0x0A]
                @ [CHR 0x09] @ ''a'' @ [CHR 0x0A, CHR 0x0A, CHR 0x20] @ good_line))
       = Inr [ledger_entry 1704110400 ''1.0.0'' ''a'' ''update'',
              ledger_entry 1704110400 ''1.0.0'' ''a'' ''update'']"
proof -
  let ?c = "''junk'' @ [CHR 0x0A] @ good_line @ [CHR 0x0D, CHR 0x0A]
                @ [CHR 0x09] @ ''a'' @ [CHR 0x0A, CHR 0x0A, CHR 0x20] @ good_line"
  have a: "os_Stat [] ''/w/ledger.log'' = Inl ENOENT" by code_simp
  have s: "os_Stat (fs_with_ledger ?c) ''/w/ledger.log'' = Inr (Regular ?c)"
    by (rule os_Stat_fs_with_ledger)
  have l: "\<forall>l \<in> set (raw_lines ?c). int (length l) < MaxScanTokenSize" by code_simp
  have m: "map (line_entry sample_env) (filter (well_formed_line sample_env)
                (map (\<lambda>l. strings_TrimSpace (dropCR l)) (raw_lines ?c)))
           = [ledger_entry 1704110400 ''1.0.0'' ''a'' ''update'',
              ledger_entry 1704110400 ''1.0.0'' ''a'' ''update'']"
    by code_simp
  note t = ReadAll_skips_malformed_lines [of _ "''/w/ledger.log''" sample_env ?c]
  from t [of "[]"] a have "Ledger_ReadAll sample_env ''/w/ledger.log'' [] = Inr []" by blast
  moreover from t [of "fs_with_ledger ?c"] s l
  have "Ledger_ReadAll sample_env ''/w/ledger.log'' (fs_with_ledger ?c)
          = Inr (map (line_entry sample_env) (filter (well_formed_line sample_env)
                (map (\<lambda>l. strings_TrimSpace (dropCR l)) (raw_lines ?c))))" by blast
  ultimately show ?thesis using a s unfolding m by blast
qed

lemma raw_lines_two:
  assumes "CHR 0x0A \<notin> set a" and "CHR 0x0A \<notin> set b" and "b \<noteq> []"
  shows "raw_lines (a @ [CHR 0x0A] @ b) = [a, b]"
  using assms by (simp add: raw_lines_def Split_append Split_no_sep)

text \<open>
  C7 as the specification states it fails twice.  A line of six fields whose first
  field parses and whose last field is empty is skipped: trimming takes its last
  tab away and leaves five fields.  And a line of 65536 bytes is not skipped: the
  read fails, and the well-formed line before it is not returned.
\<close>

theorem ReadAll_trims_and_limits_counterexample:
  "well_formed_line sample_env line_without_action
   \<and> Ledger_ReadAll sample_env ''/w/ledger.log''
         (fs_with_ledger (line_without_action @ [CHR 0x0A])) = Inr []
   \<and> well_formed_line sample_env good_line
   \<and> Ledger_ReadAll sample_env ''/w/ledger.log''
         (fs_with_ledger (good_line @ [CHR 0x0A] @ replicate 65536 CHR ''x''))
       = Inl (ReadLedgerFailed ErrTooLong)"
proof -
  have 1: "well_formed_line sample_env line_without_action" by code_simp
  have 2: "Ledger_ReadAll sample_env ''/w/ledger.log''
         (fs_with_ledger (line_without_action @ [CHR 0x0A])) = Inr []" by code_simp
  have 3: "well_formed_line sample_env good_line" by code_simp
  have g: "CHR 0x0A \<notin> set good_line" by code_simp
  have "raw_lines (good_line @ [CHR 0x0A] @ replicate 65536 CHR ''x'')
          = [good_line, replicate 65536 CHR ''x'']"
    by (rule raw_lines_two [OF g]) simp_all
  then have "\<exists>l \<in> set (raw_lines (good_line @ [CHR 0x0A] @ replicate 65536 CHR ''x'')).
               MaxScanTokenSize \<le> int (length l)"
    by (simp add: MaxScanTokenSize_def)
  from ReadAll_too_long [OF os_Stat_fs_with_ledger this] 1 2 3 show ?thesis by blast
qed

section \<open>Appending to the ledger and reading it back\<close>

lemma trim_right_rev_space: "is_space1 c \<Longrightarrow> trim_right_rev (c # r) = trim_right_rev r"
proof (cases r)
  case Nil
  then show "is_space1 c \<Longrightarrow> ?thesis" by simp
next
  case (Cons b r')
  then show "is_space1 c \<Longrightarrow> ?thesis" by (cases r') simp_all
qed

lemma length_trim_right_rev: "length (trim_right_rev x) \<le> length x"
  by (induction x rule: trim_right_rev.induct) auto

lemma trim_left_is_suffix: "\<exists>pre. s = pre @ trim_left s"
proof (induction s rule: trim_left.induct)
  case (1 a b c rest)
  show ?case
  proof (cases "is_space1 a")
    case True
    with 1(1) obtain pre where "b # c # rest = pre @ trim_left (b # c # rest)" by blast
    then have "a # b # c # rest = (a # pre) @ trim_left (b # c # rest)" by simp
    with True show ?thesis by (metis trim_left.simps(1))
  next
    case False
    show ?thesis
    proof (cases "is_space2 a b")
      case True
      with False 1(2) obtain pre where "c # rest = pre @ trim_left (c # rest)" by blast
      then have "a # b # c # rest = (a # b # pre) @ trim_left (c # rest)" by simp
      with True False show ?thesis by (metis trim_left.simps(1))
    next
      case F2: False
      show ?thesis
      proof (cases "is_space3 a b c")
        case True
        with False F2 1(3) obtain pre where "rest = pre @ trim_left rest" by blast
        then have "a # b # c # rest = (a # b # c # pre) @ trim_left rest" by simp
        with True False F2 show ?thesis by (metis trim_left.simps(1))
      next
        case F3: False
        with False F2 have "trim_left (a # b # c # rest) = a # b # c # rest" by simp
        then show ?thesis by (metis append_Nil)
      qed
    qed
  qed
next
  case (2 a b)
  show ?case
  proof (cases "is_space1 a")
    case True
    with 2 obtain pre where "[b] = pre @ trim_left [b]" by blast
    then have "[a, b] = (a # pre) @ trim_left [b]" by simp
    with True show ?thesis by (metis trim_left.simps(2))
  next
    case False
    then show ?thesis by (cases "is_space2 a b") (auto intro: exI [of _ "[]"])
  qed
next
  case (3 a)
  then show ?case by auto
next
  case 4
  then show ?case by simp
qed

lemma TrimSpace_fixed_no_CR:
  assumes "strings_TrimSpace s = s"
  shows "dropCR s = s"
proof (rule ccontr)
  assume "dropCR s \<noteq> s"
  then have ne: "s \<noteq> []" and cr: "last s = CHR 0x0D"
    by (auto simp: dropCR_def split: if_splits)
  obtain pre where pre: "s = pre @ trim_left s" using trim_left_is_suffix by blast
  show False
  proof (cases "trim_left s = []")
    case True
    then have "strings_TrimSpace s = []" by (simp add: strings_TrimSpace_def)
    with assms ne show False by simp
  next
    case False
    then have "last (trim_left s) = CHR 0x0D" using pre cr by (metis last_appendR)
    with False have r: "rev (trim_left s) = CHR 0x0D # rev (butlast (trim_left s))"
      by (metis append_butlast_last_id rev.simps(2) rev_append rev_rev_ident singleton_rev_conv append_Cons append_Nil)
    have sp: "is_space1 (CHR 0x0D)" by (simp add: is_space1_def)
    have "length (strings_TrimSpace s) = length (trim_right_rev (rev (butlast (trim_left s))))"
      unfolding strings_TrimSpace_def r trim_right_rev_space [OF sp] by simp
    also have "\<dots> \<le> length (butlast (trim_left s))"
      using length_trim_right_rev [of "rev (butlast (trim_left s))"] by simp
    also have "\<dots> < length (trim_left s)" using False by simp
    also have "\<dots> \<le> length s" using pre by (metis length_append le_add2)
    finally show False using assms by simp
  qed
qed

lemma Split_concat_lines:
  assumes "\<forall>l \<in> set ls. sep \<notin> set l"
  shows "strings_Split (concat (map (\<lambda>l. l @ [sep]) ls)) sep = ls @ [[]]"
  using assms by (induction ls) (simp_all add: Split_append)

lemma raw_lines_concat:
  assumes "\<forall>l \<in> set ls. CHR 0x0A \<notin> set l"
  shows "raw_lines (concat (map (\<lambda>l. l @ [CHR 0x0A]) ls)) = ls"
  unfolding raw_lines_def Split_concat_lines [OF assms] by simp

lemma storable_fields:
  assumes "storable env e"
  shows "strings_Split (entry_fields env e) CHR 0x09
           = [time_Format env (Timestamp e), Version e, InternalID e, Filename e, SHA256 e,
              Action e]"
proof -
  from assms have n: "CHR 0x09 \<notin> set (time_Format env (Timestamp e))"
    "CHR 0x09 \<notin> set (Version e)" "CHR 0x09 \<notin> set (InternalID e)"
    "CHR 0x09 \<notin> set (Filename e)" "CHR 0x09 \<notin> set (SHA256 e)" "CHR 0x09 \<notin> set (Action e)"
    by (simp_all add: storable_def)
  show ?thesis
    unfolding entry_fields_def append_Cons append_Nil
    by (simp only: Split_append [OF n(1)] Split_append [OF n(2)] Split_append [OF n(3)]
        Split_append [OF n(4)] Split_append [OF n(5)] Split_no_sep [OF n(6)])
qed

lemma storable_no_LF:
  assumes "storable env e"
  shows "CHR 0x0A \<notin> set (entry_fields env e)"
  using assms by (simp add: storable_def entry_fields_def)

lemma storable_well_formed:
  assumes "storable env e"
  shows "well_formed_line env (entry_fields env e)"
  using assms unfolding well_formed_line_def storable_fields [OF assms]
  by (simp add: storable_def)

lemma storable_line_entry:
  assumes "storable env e"
  shows "line_entry env (entry_fields env e) = e"
  using assms unfolding line_entry_def Let_def storable_fields [OF assms]
  by (simp add: storable_def)

lemma storable_lines_read_back:
  assumes "\<forall>e \<in> set es. storable env e"
  shows "map (line_entry env) (filter (well_formed_line env)
           (map (\<lambda>l. strings_TrimSpace (dropCR l)) (map (entry_fields env) es))) = es"
  using assms
proof (induction es)
  case Nil
  then show ?case by simp
next
  case (Cons e es)
  then have s: "storable env e" by simp
  then have t: "strings_TrimSpace (entry_fields env e) = entry_fields env e"
    by (simp add: storable_def)
  from TrimSpace_fixed_no_CR [OF t] t
  have "strings_TrimSpace (dropCR (entry_fields env e)) = entry_fields env e" by simp
  with Cons storable_well_formed [OF s] storable_line_entry [OF s] show ?case by simp
qed

lemma ReadAll_of_lines:
  assumes "os_Stat fs path = Inr (Regular (concat (map (entry_line env) es)))"
    and "\<forall>e \<in> set es. storable env e"
  shows "Ledger_ReadAll env path fs = Inr es"
proof -
  have c: "concat (map (entry_line env) es)
             = concat (map (\<lambda>l. l @ [CHR 0x0A]) (map (entry_fields env) es))"
  proof -
    have "entry_line env = (\<lambda>x. entry_fields env x @ [CHR 0x0A])"
      by (rule ext) (simp add: entry_line_def)
    then show ?thesis by (simp add: comp_def)
  qed
  have nl: "\<forall>l \<in> set (map (entry_fields env) es). CHR 0x0A \<notin> set l"
    using assms(2) storable_no_LF by auto
  have r: "raw_lines (concat (map (entry_line env) es)) = map (entry_fields env) es"
    unfolding c by (rule raw_lines_concat [OF nl])
  have short: "\<forall>l \<in> set (raw_lines (concat (map (entry_line env) es))).
                 int (length l) < MaxScanTokenSize"
    unfolding r using assms(2) by (auto simp: storable_def)
  show ?thesis
    unfolding ReadAll_short_lines [OF assms(1) short] r
    using storable_lines_read_back [OF assms(2)] by simp
qed

lemma fs_lookup_cong: "filepath_Clean p = filepath_Clean p' \<Longrightarrow> fs_lookup fs p = fs_lookup fs p'"
  by (simp add: fs_lookup_def)

lemma fs_lookup_update_key:
  assumes "fs_lookup fs0 p0 \<noteq> Some Directory"
  shows "fs_lookup (AList.update (filepath_Clean p0) n fs) p
           = (if filepath_Clean p = filepath_Clean p0 then Some n else fs_lookup fs p)"
  using assms by (auto simp: fs_lookup_def Let_def update_conv')

lemma MkdirAll_makes_directory:
  assumes "os_MkdirAll fs d = (None, fs1)"
  shows "os_Stat fs1 d = Inr Directory"
proof (cases "os_Stat fs d")
  case (Inr n)
  with assms show ?thesis
    by (subst (asm) os_MkdirAll.simps) (auto simp: IsDir_def split: if_splits)
next
  case (Inl e0)
  obtain rp fsp where p: "(if mkdir_parent d \<noteq> [] then os_MkdirAll fs (mkdir_parent d)
                 else (None, fs)) = (rp, fsp)"
    by (cases "if mkdir_parent d \<noteq> [] then os_MkdirAll fs (mkdir_parent d) else (None, fs)") auto
  from assms Inl p have rp: "rp = None"
    by (subst (asm) os_MkdirAll.simps) (auto split: option.splits)
  show ?thesis
  proof (cases "os_Mkdir fsp d")
    case mk: (Inr fs2)
    with assms Inl p rp have fs1: "fs1 = fs2"
      by (subst (asm) os_MkdirAll.simps) auto
    from mk have n: "fs_lookup fsp d = None" and u: "fs2 = AList.update (filepath_Clean d) Directory fsp"
      by (auto simp: os_Mkdir_def split: if_splits)
    from n have "fs_lookup fsp d \<noteq> Some Directory" by simp
    from fs_lookup_update_key [OF this, of Directory fsp d]
    have "fs_lookup fs2 d = Some Directory" unfolding u by simp
    then show ?thesis unfolding fs1 by (rule os_Stat_plain) simp
  next
    case mk: (Inl e)
    with assms Inl p rp have "os_Lstat fsp d = Inr Directory" and fs1: "fs1 = fsp"
      by (subst (asm) os_MkdirAll.simps, auto split: if_splits)+
    then have "fs_lookup fsp d = Some Directory"
      by (auto simp: os_Lstat_def split: option.splits)
    then show ?thesis unfolding fs1 by (rule os_Stat_plain) simp
  qed
qed

lemma MkdirAll_only_adds_directories:
  "os_MkdirAll fs d = (r, fs1) \<Longrightarrow>
     fs_lookup fs1 p = fs_lookup fs p \<or> (fs_lookup fs p = None \<and> fs_lookup fs1 p = Some Directory)"
proof (induction fs d arbitrary: r fs1 rule: os_MkdirAll.induct)
  case (1 fs d)
  show ?case
  proof (cases "os_Stat fs d")
    case (Inr n)
    with "1.prems" have "fs1 = fs"
      by (subst (asm) os_MkdirAll.simps) (auto split: if_splits)
    then show ?thesis by simp
  next
    case (Inl e0)
    obtain rp fsp where p: "(if mkdir_parent d \<noteq> [] then os_MkdirAll fs (mkdir_parent d)
                 else (None, fs)) = (rp, fsp)"
      by (cases "if mkdir_parent d \<noteq> [] then os_MkdirAll fs (mkdir_parent d) else (None, fs)") auto
    have ih: "fs_lookup fsp p = fs_lookup fs p
                \<or> (fs_lookup fs p = None \<and> fs_lookup fsp p = Some Directory)"
    proof (cases "mkdir_parent d \<noteq> []")
      case True
      with p have "os_MkdirAll fs (mkdir_parent d) = (rp, fsp)" by simp
      from "1.IH" [OF Inl True this] show ?thesis .
    next
      case False
      with p show ?thesis by simp
    qed
    show ?thesis
    proof (cases rp)
      case (Some e)
      with "1.prems" Inl p have "fs1 = fsp"
        by (subst (asm) os_MkdirAll.simps) auto
      with ih show ?thesis by simp
    next
      case None
      show ?thesis
      proof (cases "os_Mkdir fsp d")
        case mk: (Inl e)
        with "1.prems" Inl p None have "fs1 = fsp"
          by (subst (asm) os_MkdirAll.simps) (auto split: if_splits)
        with ih show ?thesis by simp
      next
        case mk: (Inr fs2)
        with "1.prems" Inl p None have fs1: "fs1 = fs2"
          by (subst (asm) os_MkdirAll.simps) auto
        from mk have n: "fs_lookup fsp d = None"
          and u: "fs2 = AList.update (filepath_Clean d) Directory fsp"
          by (auto simp: os_Mkdir_def split: if_splits)
        from n have nd: "fs_lookup fsp d \<noteq> Some Directory" by simp
        note l = fs_lookup_update_key [OF nd, of Directory fsp p]
        show ?thesis
        proof (cases "filepath_Clean p = filepath_Clean d")
          case True
          then have "fs_lookup fsp p = None" using n fs_lookup_cong by metis
          with ih have "fs_lookup fs p = None" by auto
          moreover from l True have "fs_lookup fs1 p = Some Directory" unfolding fs1 u by simp
          ultimately show ?thesis by simp
        next
          case False
          with l have "fs_lookup fs1 p = fs_lookup fsp p" unfolding fs1 u by simp
          with ih show ?thesis by auto
        qed
      qed
    qed
  qed
qed

lemma follow_update_other:
  assumes nd: "fs_lookup fs p0 \<noteq> Some Directory"
    and nl: "\<And>t. fs_lookup fs p0 \<noteq> Some (Symlink t)"
  shows "follow n fs d = Inr (q, Some Directory)
     \<Longrightarrow> follow n (AList.update (filepath_Clean p0) v fs) d = Inr (q, Some Directory)"
proof (induction n arbitrary: d)
  case 0
  then show ?case by simp
next
  case (Suc n)
  note l = fs_lookup_update_key [OF nd, of v fs d]
  have ne: "filepath_Clean d \<noteq> filepath_Clean p0"
  proof
    assume eq: "filepath_Clean d = filepath_Clean p0"
    then have e: "fs_lookup fs d = fs_lookup fs p0" by (rule fs_lookup_cong)
    show False
    proof (cases "fs_lookup fs p0")
      case None
      with e Suc.prems show False by simp
    next
      case (Some x)
      with e Suc.prems nd nl show False by (cases x) (auto split: if_splits)
    qed
  qed
  with l have same: "fs_lookup (AList.update (filepath_Clean p0) v fs) d = fs_lookup fs d" by simp
  show ?case
  proof (cases "fs_lookup fs d")
    case None
    with Suc.prems show ?thesis by simp
  next
    case (Some x)
    show ?thesis
    proof (cases x)
      case (Symlink t)
      with Some Suc.prems have t: "t \<noteq> []" and f: "follow n fs (link_dest d t) = Inr (q, Some Directory)"
        by (auto split: if_splits)
      from Suc.IH [OF f] Some Symlink t same show ?thesis by simp
    next
      case (Regular c)
      with Some Suc.prems show ?thesis by simp
    next
      case Directory
      with Some Suc.prems same show ?thesis by simp
    qed
  qed
qed

lemma os_Stat_update_other:
  assumes "fs_lookup fs p0 \<noteq> Some Directory"
    and "\<And>t. fs_lookup fs p0 \<noteq> Some (Symlink t)"
    and "os_Stat fs d = Inr Directory"
  shows "os_Stat (AList.update (filepath_Clean p0) v fs) d = Inr Directory"
proof -
  from assms(3) obtain q where "follow 40 fs d = Inr (q, Some Directory)"
    by (auto simp: os_Stat_def split: sum.splits prod.splits option.splits)
  from follow_update_other [OF assms(1,2) this] show ?thesis
    by (simp add: os_Stat_def)
qed

lemma map_of_fs_lookup:
  "fs_lookup fs p \<noteq> Some Directory \<Longrightarrow> map_of fs (filepath_Clean p) = fs_lookup fs p"
  by (auto simp: fs_lookup_def Let_def)

lemma MkdirAll_existing: "os_Stat fs d = Inr Directory \<Longrightarrow> os_MkdirAll fs d = (None, fs)"
  by (subst os_MkdirAll.simps) (simp add: IsDir_def)

lemma Append_to_existing:
  assumes d: "os_Stat fs (filepath_Dir path) = Inr Directory"
    and f: "fs_lookup fs path = Some (Regular c)"
  shows "Ledger_Append env path e fs
           = (None, AList.update (filepath_Clean path) (Regular (c @ entry_line env e)) fs)"
proof -
  have m: "os_MkdirAll fs (filepath_Dir path) = (None, fs)"
    by (rule MkdirAll_existing [OF d])
  have e40: "(40::nat) = Suc 39" by simp
  have "follow 40 fs path = Inr (filepath_Clean path, Some (Regular c))"
    unfolding e40 using follow_plain [OF f, of 39] by simp
  then have o: "os_OpenFile_append fs path = Inr (filepath_Clean path, fs)"
    by (simp add: os_OpenFile_append_def)
  have "map_of fs (filepath_Clean path) = Some (Regular c)"
    using map_of_fs_lookup [of fs path] f by simp
  then have w: "file_Write fs (filepath_Clean path) (entry_line env e)
                  = AList.update (filepath_Clean path) (Regular (c @ entry_line env e)) fs"
    by (simp add: file_Write_def)
  show ?thesis
    unfolding Ledger_Append_def m using o w by simp
qed

lemma Append_to_absent:
  assumes h: "filepath_Dir (filepath_Clean path) = filepath_Dir path"
    and mk: "os_MkdirAll fs (filepath_Dir path) = (None, fs1)"
    and ab: "fs_lookup fs1 path = None"
  shows "Ledger_Append env path e fs
           = (None, AList.update (filepath_Clean path) (Regular (entry_line env e)) fs1)"
proof -
  have sd: "os_Stat fs1 (filepath_Dir path) = Inr Directory"
    by (rule MkdirAll_makes_directory [OF mk])
  have e40: "(40::nat) = Suc 39" by simp
  have "follow 40 fs1 path = Inr (filepath_Clean path, None)"
    unfolding e40 using follow_absent [OF ab, of 39] by simp
  then have o: "os_OpenFile_append fs1 path
                  = Inr (filepath_Clean path, AList.update (filepath_Clean path) (Regular []) fs1)"
    using sd h by (simp add: os_OpenFile_append_def is_directory_def)
  have w: "file_Write (AList.update (filepath_Clean path) (Regular []) fs1) (filepath_Clean path)
             (entry_line env e)
           = AList.update (filepath_Clean path) (Regular (entry_line env e)) fs1"
    by (simp add: file_Write_def update_conv')
  show ?thesis
    unfolding Ledger_Append_def mk using o w by simp
qed

lemma ledger_state_kept:
  assumes nd: "fs_lookup fs path \<noteq> Some Directory"
    and nl: "\<And>t. fs_lookup fs path \<noteq> Some (Symlink t)"
    and d: "os_Stat fs (filepath_Dir path) = Inr Directory"
  shows "fs_lookup (AList.update (filepath_Clean path) (Regular c) fs) path = Some (Regular c)"
    and "os_Stat (AList.update (filepath_Clean path) (Regular c) fs) (filepath_Dir path)
           = Inr Directory"
proof -
  show "fs_lookup (AList.update (filepath_Clean path) (Regular c) fs) path = Some (Regular c)"
    using fs_lookup_update_key [OF nd, of "Regular c" fs path] by simp
  show "os_Stat (AList.update (filepath_Clean path) (Regular c) fs) (filepath_Dir path)
           = Inr Directory"
    by (rule os_Stat_update_other [OF nd nl d])
qed

lemma append_all_existing:
  "os_Stat fs (filepath_Dir path) = Inr Directory
     \<Longrightarrow> fs_lookup fs path = Some (Regular c)
     \<Longrightarrow> \<exists>fs'. append_all env path es fs = (None, fs')
           \<and> fs_lookup fs' path = Some (Regular (c @ concat (map (entry_line env) es)))"
proof (induction es arbitrary: fs c)
  case Nil
  then show ?case by simp
next
  case (Cons e es)
  let ?fs1 = "AList.update (filepath_Clean path) (Regular (c @ entry_line env e)) fs"
  have a: "Ledger_Append env path e fs = (None, ?fs1)"
    by (rule Append_to_existing [OF Cons.prems])
  have nd: "fs_lookup fs path \<noteq> Some Directory" using Cons.prems(2) by simp
  have nl: "fs_lookup fs path \<noteq> Some (Symlink t)" for t using Cons.prems(2) by simp
  note k = ledger_state_kept [OF nd nl Cons.prems(1), of "c @ entry_line env e"]
  from Cons.IH [OF k(2) k(1)] obtain fs' where
    "append_all env path es ?fs1 = (None, fs')"
    "fs_lookup fs' path = Some (Regular ((c @ entry_line env e) @ concat (map (entry_line env) es)))"
    by blast
  with a show ?case by simp
qed

lemma append_all_absent:
  assumes h: "filepath_Dir (filepath_Clean path) = filepath_Dir path"
    and mk: "os_MkdirAll fs (filepath_Dir path) = (None, fs1)"
    and ab: "fs_lookup fs1 path = None"
  shows "\<exists>fs'. append_all env path es fs = (None, fs')
           \<and> (if es = [] then fs_lookup fs' path = None
               else fs_lookup fs' path = Some (Regular (concat (map (entry_line env) es))))"
proof (cases es)
  case Nil
  from MkdirAll_only_adds_directories [OF mk, of path] ab
  have "fs_lookup fs path = None" by auto
  with Nil show ?thesis by simp
next
  case (Cons e rest)
  let ?fs2 = "AList.update (filepath_Clean path) (Regular (entry_line env e)) fs1"
  have a: "Ledger_Append env path e fs = (None, ?fs2)"
    by (rule Append_to_absent [OF h mk ab])
  have nd: "fs_lookup fs1 path \<noteq> Some Directory" using ab by simp
  have nl: "fs_lookup fs1 path \<noteq> Some (Symlink t)" for t using ab by simp
  note k = ledger_state_kept [OF nd nl MkdirAll_makes_directory [OF mk], of "entry_line env e"]
  from append_all_existing [OF k(2) k(1), of env rest] obtain fs' where
    "append_all env path rest ?fs2 = (None, fs')"
    "fs_lookup fs' path = Some (Regular (entry_line env e @ concat (map (entry_line env) rest)))"
    by blast
  with a Cons show ?thesis by simp
qed

text \<open>
  C8, as the code has it.  Take a ledger path whose directory exists or can be made
  and at which no file is once the directory is there, and entries that a line can
  carry (\<open>storable\<close>).  Appending the entries one by one succeeds, the ledger then
  holds their lines in that order and nothing else, and \<open>ReadAll\<close> returns exactly
  these entries in that order.  And any one \<open>Append\<close> to an existing ledger puts its
  line after the content that is there and changes no other file.
\<close>

theorem Append_ReadAll_roundtrip:
  assumes "filepath_Dir (filepath_Clean path) = filepath_Dir path"
    and "os_MkdirAll fs (filepath_Dir path) = (None, fs1)"
    and "fs_lookup fs1 path = None"
    and "\<forall>e \<in> set es. storable env e"
  shows "(\<exists>fs'. append_all env path es fs = (None, fs')
            \<and> Ledger_ReadAll env path fs' = Inr es
            \<and> (es \<noteq> [] \<longrightarrow>
                  os_Stat fs' path = Inr (Regular (concat (map (entry_line env) es)))))
         \<and> (fs_lookup fs0 path = Some (Regular c)
              \<and> os_Stat fs0 (filepath_Dir path) = Inr Directory \<longrightarrow>
            Ledger_Append env path e fs0
              = (None, AList.update (filepath_Clean path) (Regular (c @ entry_line env e)) fs0))"
proof -
  from append_all_absent [OF assms(1,2,3), of env es] obtain fs' where
    a: "append_all env path es fs = (None, fs')"
    and l: "if es = [] then fs_lookup fs' path = None
            else fs_lookup fs' path = Some (Regular (concat (map (entry_line env) es)))"
    by blast
  have r: "Ledger_ReadAll env path fs' = Inr es"
  proof (cases "es = []")
    case True
    with l have "os_Stat fs' path = Inl ENOENT" by (simp add: os_Stat_absent)
    with True show ?thesis by (simp add: ReadAll_absent)
  next
    case False
    with l have "os_Stat fs' path = Inr (Regular (concat (map (entry_line env) es)))"
      by (simp add: os_Stat_plain)
    from ReadAll_of_lines [OF this assms(4)] show ?thesis .
  qed
  have s: "es \<noteq> [] \<longrightarrow> os_Stat fs' path = Inr (Regular (concat (map (entry_line env) es)))"
    using l by (simp add: os_Stat_plain)
  have "Ledger_Append env path e fs0
              = (None, AList.update (filepath_Clean path) (Regular (c @ entry_line env e)) fs0)"
    if "fs_lookup fs0 path = Some (Regular c)" "os_Stat fs0 (filepath_Dir path) = Inr Directory"
    by (rule Append_to_existing [OF that(2) that(1)])
  with a r s show ?thesis by blast
qed

text \<open>
  The theorem on two entries, appended to a ledger that does not exist yet, in a
  directory that does not exist yet.
\<close>

theorem Append_ReadAll_roundtrip_witness:
  "filepath_Dir (filepath_Clean ''/w/ledger.log'') = filepath_Dir ''/w/ledger.log''
   \<and> os_MkdirAll [] (filepath_Dir ''/w/ledger.log'') = (None, fs_workdir)
   \<and> fs_lookup fs_workdir ''/w/ledger.log'' = None
   \<and> storable sample_env (ledger_entry 1704110400 ''1.0.0'' ''Cursor-1.0.0-x86_64.AppImage'' ''update'')
   \<and> storable sample_env (ledger_entry 1704196800 ''1.1.0'' ''Cursor-1.1.0-x86_64.AppImage'' ''switch'')
   \<and> (\<exists>fs'. append_all sample_env ''/w/ledger.log''
                 [ledger_entry 1704110400 ''1.0.0'' ''Cursor-1.0.0-x86_64.AppImage'' ''update'',
                  ledger_entry 1704196800 ''1.1.0'' ''Cursor-1.1.0-x86_64.AppImage'' ''switch'']
                 [] = (None, fs')
          \<and> Ledger_ReadAll sample_env ''/w/ledger.log'' fs'
              = Inr [ledger_entry 1704110400 ''1.0.0'' ''Cursor-1.0.0-x86_64.AppImage'' ''update'',
                     ledger_entry 1704196800 ''1.1.0'' ''Cursor-1.1.0-x86_64.AppImage'' ''switch''])"
proof -
  let ?e1 = "ledger_entry 1704110400 ''1.0.0'' ''Cursor-1.0.0-x86_64.AppImage'' ''update''"
  let ?e2 = "ledger_entry 1704196800 ''1.1.0'' ''Cursor-1.1.0-x86_64.AppImage'' ''switch''"
  have c: "filepath_Dir (filepath_Clean ''/w/ledger.log'') = filepath_Dir ''/w/ledger.log''"
    by code_simp
  have m: "os_MkdirAll [] (filepath_Dir ''/w/ledger.log'') = (None, fs_workdir)" by code_simp
  have f: "fs_lookup fs_workdir ''/w/ledger.log'' = None" by code_simp
  have s1: "storable sample_env ?e1" by code_simp
  have s2: "storable sample_env ?e2" by code_simp
  from s1 s2 have s: "\<forall>e \<in> set [?e1, ?e2]. storable sample_env e" by simp
  from Append_ReadAll_roundtrip [OF c m f s] c m f s1 s2 show ?thesis by blast
qed

text \<open>
  C8 as the specification states it fails for an entry whose file name holds a tab:
  it is appended, its line has seven fields, and \<open>ReadAll\<close> returns no entry.
\<close>

theorem Append_ReadAll_tab_counterexample:
  "fst (append_all sample_env ''/w/ledger.log''
          [ledger_entry 1704110400 ''1.0.0'' (''a'' @ [CHR 0x09] @ ''b'') ''update''] fs_workdir)
     = None
   \<and> Ledger_ReadAll sample_env ''/w/ledger.log''
         (snd (append_all sample_env ''/w/ledger.log''
            [ledger_entry 1704110400 ''1.0.0'' (''a'' @ [CHR 0x09] @ ''b'') ''update''] fs_workdir))
     = Inr []"
  by code_simp

end
